theory Spec2Isabelle
  imports Main "HOL-Library.Char_ord" "HOL-Library.List_Lexorder"
    "HOL-Library.Product_Lexorder" "HOL-Library.Sublist" "HOL-Library.AList"
    "HOL-Library.Multiset"
begin

section \<open>Python values used by the course planner\<close>

text \<open>
  The planner is written in Python. Its strings are modelled as \<^typ>\<open>string\<close>, read as
  ASCII text: one \<^typ>\<open>char\<close> per code point below 128. Python integers are \<^typ>\<open>int\<close>,
  list positions and counts are \<^typ>\<open>nat\<close>. An exception is a value of \<open>py_error\<close>
  returned on the left of a sum. The interpreter's limit on the number of digits that
  \<open>int()\<close> accepts is not modelled.
\<close>

datatype py_error = ValueError | IndexError | KeyError | AttributeError

text \<open>\<open>str.isspace\<close> on one ASCII character: TAB, LF, VT, FF, CR, FS, GS, RS, US, space.\<close>

definition py_isspace :: "char \<Rightarrow> bool" where
  "py_isspace c = (c \<in> {CHR 0x09, CHR 0x0A, CHR 0x0B, CHR 0x0C, CHR 0x0D,
                         CHR 0x1C, CHR 0x1D, CHR 0x1E, CHR 0x1F, CHR '' ''})"

definition py_isdigit_char :: "char \<Rightarrow> bool" where
  "py_isdigit_char c = (c \<in> set ''0123456789'')"

definition py_isalpha_char :: "char \<Rightarrow> bool" where
  "py_isalpha_char c =
     (c \<in> set ''abcdefghijklmnopqrstuvwxyz'' \<or> c \<in> set ''ABCDEFGHIJKLMNOPQRSTUVWXYZ'')"

text \<open>\<open>str.isdigit\<close>: every character is a digit and there is at least one.\<close>

definition py_isdigit :: "string \<Rightarrow> bool" where
  "py_isdigit s = (s \<noteq> [] \<and> list_all py_isdigit_char s)"

definition py_upper_char :: "char \<Rightarrow> char" where
  "py_upper_char c =
     (case map_of (zip ''abcdefghijklmnopqrstuvwxyz'' ''ABCDEFGHIJKLMNOPQRSTUVWXYZ'') c of
        Some u \<Rightarrow> u | None \<Rightarrow> c)"

definition py_lower_char :: "char \<Rightarrow> char" where
  "py_lower_char c =
     (case map_of (zip ''ABCDEFGHIJKLMNOPQRSTUVWXYZ'' ''abcdefghijklmnopqrstuvwxyz'') c of
        Some l \<Rightarrow> l | None \<Rightarrow> c)"

definition py_upper :: "string \<Rightarrow> string" where
  "py_upper s = map py_upper_char s"

definition py_lower :: "string \<Rightarrow> string" where
  "py_lower s = map py_lower_char s"

text \<open>\<open>s.strip()\<close>: leading and trailing whitespace removed.\<close>

definition py_strip :: "string \<Rightarrow> string" where
  "py_strip s = rev (dropWhile py_isspace (rev (dropWhile py_isspace s)))"

text \<open>\<open>sub in s\<close> for strings: \<open>sub\<close> occurs in \<open>s\<close> as a contiguous block.\<close>

fun py_contains :: "string \<Rightarrow> string \<Rightarrow> bool" where
  "py_contains sub [] = (sub = [])"
| "py_contains sub (c # cs) = (prefix sub (c # cs) \<or> py_contains sub cs)"

text \<open>
  \<open>s.replace(old, new)\<close> for a non-empty \<open>old\<close> (the planner only ever passes the
  literals AM, PM and the two-letter day codes): every occurrence, scanning from the left
  without overlap.
\<close>

function py_replace :: "string \<Rightarrow> string \<Rightarrow> string \<Rightarrow> string" where
  "py_replace old new [] = []"
| "py_replace old new (c # cs) =
     (if old \<noteq> [] \<and> prefix old (c # cs)
      then new @ py_replace old new (drop (length old) (c # cs))
      else c # py_replace old new cs)"
  by pat_completeness auto
termination
  by (relation "measure (\<lambda>(old, new, s). length s)") (auto simp: neq_Nil_conv)

text \<open>\<open>s.replace(old, new, 1)\<close>: the first occurrence only.\<close>

fun py_replace1 :: "string \<Rightarrow> string \<Rightarrow> string \<Rightarrow> string" where
  "py_replace1 old new [] = []"
| "py_replace1 old new (c # cs) =
     (if old \<noteq> [] \<and> prefix old (c # cs)
      then new @ drop (length old) (c # cs)
      else c # py_replace1 old new cs)"

text \<open>\<open>s.split(sep)\<close> for a one-character separator; \<open>cur\<close> is the piece being read.\<close>

fun py_split_from :: "char \<Rightarrow> string \<Rightarrow> string \<Rightarrow> string list" where
  "py_split_from sep cur [] = [cur]"
| "py_split_from sep cur (c # cs) =
     (if c = sep then cur # py_split_from sep [] cs else py_split_from sep (cur @ [c]) cs)"

definition py_split :: "char \<Rightarrow> string \<Rightarrow> string list" where
  "py_split sep s = py_split_from sep [] s"

text \<open>\<open>s.split()\<close>: the maximal blocks of non-whitespace characters.\<close>

fun py_split_ws_from :: "string \<Rightarrow> string \<Rightarrow> string list" where
  "py_split_ws_from cur [] = (if cur = [] then [] else [cur])"
| "py_split_ws_from cur (c # cs) =
     (if py_isspace c
      then (if cur = [] then py_split_ws_from [] cs else cur # py_split_ws_from [] cs)
      else py_split_ws_from (cur @ [c]) cs)"

definition py_split_ws :: "string \<Rightarrow> string list" where
  "py_split_ws s = py_split_ws_from [] s"

text \<open>
  \<open>int(s)\<close>: surrounding whitespace is ignored, a sign may lead, and the digits may be
  separated by single underscores. Anything else raises \<open>ValueError\<close>. The whitespace
  that \<open>int\<close> ignores in an ASCII string is TAB, LF, VT, FF, CR and space only: the
  separators FS, GS, RS and US, which \<open>str.strip\<close> removes, make \<open>int\<close> raise.
\<close>

definition py_int_space :: "char \<Rightarrow> bool" where
  "py_int_space c = (c \<in> {CHR 0x09, CHR 0x0A, CHR 0x0B, CHR 0x0C, CHR 0x0D, CHR '' ''})"

fun valid_digits :: "string \<Rightarrow> bool" where
  "valid_digits [] = False"
| "valid_digits [c] = py_isdigit_char c"
| "valid_digits (c # d # r) =
     (py_isdigit_char c \<and> (if d = CHR ''_'' then valid_digits r else valid_digits (d # r)))"

definition digit_val :: "char \<Rightarrow> int" where
  "digit_val c = (case map_of (zip ''0123456789'' [0, 1, 2, 3, 4, 5, 6, 7, 8, 9]) c of
                    Some v \<Rightarrow> v | None \<Rightarrow> 0)"

definition int_of_digits :: "string \<Rightarrow> int" where
  "int_of_digits ds = foldl (\<lambda>acc c. 10 * acc + digit_val c) 0 ds"

definition py_int :: "string \<Rightarrow> py_error + int" where
  "py_int s =
     (let t = rev (dropWhile py_int_space (rev (dropWhile py_int_space s)));
          neg = (case t of c # _ \<Rightarrow> c = CHR ''-'' | [] \<Rightarrow> False);
          body = (case t of c # r \<Rightarrow> (if c = CHR ''-'' \<or> c = CHR ''+'' then r else t) | [] \<Rightarrow> [])
      in if valid_digits body
         then Inr ((if neg then - 1 else 1) * int_of_digits (filter (\<lambda>c. c \<noteq> CHR ''_'') body))
         else Inl ValueError)"

text \<open>\<open>sep.join(xs)\<close>.\<close>

fun py_join :: "string \<Rightarrow> string list \<Rightarrow> string" where
  "py_join sep [] = []"
| "py_join sep [x] = x"
| "py_join sep (x # y # r) = x @ sep @ py_join sep (y # r)"

section \<open>Parsing of times and day patterns (utils/parsing.py)\<close>

definition DAY_ORDER :: "string list" where
  "DAY_ORDER = [''Monday'', ''Tuesday'', ''Wednesday'', ''Thursday'', ''Friday'',
                ''Saturday'', ''Sunday'']"

definition DAY_CODES :: "(string \<times> string) list" where
  "DAY_CODES = [(''MO'', ''Monday''), (''TU'', ''Tuesday''), (''WE'', ''Wednesday''),
                (''TH'', ''Thursday''), (''FR'', ''Friday''), (''SA'', ''Saturday''),
                (''SU'', ''Sunday'')]"

text \<open>
  \<open>parse_time_to_minutes\<close>: minutes since midnight. The two \<open>int()\<close> calls of the colon
  branch and the \<open>[0]\<close> on the split minute part are the places where the source can raise.
\<close>

definition parse_time_to_minutes :: "string \<Rightarrow> py_error + int" where
  "parse_time_to_minutes s =
     (let upper_str = py_upper (py_strip s);
          is_pm = py_contains ''PM'' upper_str;
          is_am = py_contains ''AM'' upper_str;
          time_str = py_strip (py_replace ''PM'' [] (py_replace ''AM'' [] upper_str))
      in if py_contains '':'' time_str then
           (case py_split (CHR '':'') time_str of
              p0 # p1 # _ \<Rightarrow>
                (case py_int p0 of
                   Inl e \<Rightarrow> Inl e
                 | Inr h \<Rightarrow>
                     (case py_split_ws p1 of
                        [] \<Rightarrow> Inl IndexError
                      | tok # _ \<Rightarrow>
                          (case py_int tok of
                             Inl e \<Rightarrow> Inl e
                           | Inr m \<Rightarrow>
                               Inr ((if is_pm \<and> h \<noteq> 12 then h + 12
                                     else if is_am \<and> h = 12 then 0 else h) * 60 + m))))
            | _ \<Rightarrow> Inl IndexError)
         else if py_isdigit time_str then
           (if length time_str = 4
            then (case py_int (take 2 time_str) of
                    Inl e \<Rightarrow> Inl e
                  | Inr h \<Rightarrow> (case py_int (drop 2 time_str) of
                                Inl e \<Rightarrow> Inl e | Inr m \<Rightarrow> Inr (h * 60 + m)))
            else (case py_int time_str of Inl e \<Rightarrow> Inl e | Inr h \<Rightarrow> Inr (h * 60)))
         else Inr 0)"

text \<open>
  \<open>parse_days_to_codes\<close>: first the two-letter codes, each removed once from the
  upper-cased string when found, then the single letters M, W and F of what is left.
\<close>

definition two_letter_step :: "string \<Rightarrow> string list \<times> string \<Rightarrow> string list \<times> string" where
  "two_letter_step code st =
     (case st of (result, days_upper) \<Rightarrow>
        if py_contains code days_upper
        then (result @ [code], py_replace1 code [] days_upper)
        else (result, days_upper))"

definition single_letter_step :: "char \<Rightarrow> string list \<Rightarrow> string list" where
  "single_letter_step ch result =
     (if ch = CHR ''M'' \<and> ''MO'' \<notin> set result then result @ [''M'']
      else if ch = CHR ''W'' \<and> ''WE'' \<notin> set result then result @ [''W'']
      else if ch = CHR ''F'' \<and> ''FR'' \<notin> set result then result @ [''F'']
      else result)"

definition parse_days_to_codes :: "string \<Rightarrow> string list" where
  "parse_days_to_codes days_str =
     (case fold two_letter_step [''TU'', ''TH'', ''SA'', ''SU'', ''MO'', ''WE'', ''FR'']
             ([], py_upper days_str) of
        (result, days_upper) \<Rightarrow> fold single_letter_step days_upper result)"

definition code_to_names :: "string \<Rightarrow> string list" where
  "code_to_names code =
     (case map_of DAY_CODES code of
        Some name \<Rightarrow> [name]
      | None \<Rightarrow> if code = ''M'' then [''Monday'']
                else if code = ''W'' then [''Wednesday'']
                else if code = ''F'' then [''Friday'']
                else [])"

definition parse_days_to_full_names :: "string \<Rightarrow> string list" where
  "parse_days_to_full_names days_str = concat (map code_to_names (parse_days_to_codes days_str))"

text \<open>
  \<open>parse_days_to_set\<close> builds a Python set; the model keeps it as a list without
  repetitions (the source only intersects it, tests it for emptiness and sorts it).
  Here \<open>replace\<close> removes every occurrence of a two-letter code.
\<close>

definition set_add :: "'a \<Rightarrow> 'a list \<Rightarrow> 'a list" where
  "set_add x xs = (if x \<in> set xs then xs else xs @ [x])"

definition two_letter_set_step :: "string \<Rightarrow> string list \<times> string \<Rightarrow> string list \<times> string" where
  "two_letter_set_step code st =
     (case st of (result, days) \<Rightarrow>
        if py_contains code days
        then (set_add code result, py_replace code [] days)
        else (result, days))"

definition single_letter_set_step :: "char \<Rightarrow> string list \<Rightarrow> string list" where
  "single_letter_set_step ch result = (if ch \<in> set ''MTWFS'' then set_add [ch] result else result)"

definition parse_days_to_set :: "string \<Rightarrow> string list" where
  "parse_days_to_set days_str =
     (case fold two_letter_set_step [''TU'', ''TH'', ''SA'', ''SU''] ([], py_upper days_str) of
        (result, days) \<Rightarrow> fold single_letter_set_step days result)"

section \<open>The data model (models.py, schedule_builder.py)\<close>

text \<open>
  Field names carry a prefix (\<open>m_\<close>, \<open>c_\<close>, \<open>r_\<close>, \<open>e_\<close>, \<open>k_\<close>, \<open>x_\<close>), since several classes of
  the source share field names. The professor rating of a course (floating point data
  added by an external service) is not part of the model; no function below reads it.
\<close>

record meeting =
  m_days :: string
  m_start_time :: string
  m_end_time :: string
  m_location :: string

record course =
  c_id :: string
  c_code :: string
  c_title :: string
  c_description :: string
  c_section :: string
  c_professor :: string
  c_term :: string
  c_credits :: int
  c_hub_units :: "string list"
  c_department :: string
  c_college :: string
  c_schedule :: "meeting list"
  c_status :: string
  c_enrollment_cap :: int
  c_enrollment_total :: int
  c_section_type :: string
  c_class_nbr :: int

record schedule_event =
  e_course_id :: string
  e_course_code :: string
  e_course_title :: string
  e_section :: string
  e_section_type :: string
  e_professor :: string
  e_day :: string
  e_start_minutes :: int
  e_end_minutes :: int
  e_start_time :: string
  e_end_time :: string
  e_location :: string
  e_color :: "string option"
  e_column :: nat
  e_total_columns :: nat

record schedule_conflict =
  k_event1 :: schedule_event
  k_event2 :: schedule_event
  k_day :: string
  k_overlap_start :: int
  k_overlap_end :: int

definition overlap_duration :: "schedule_conflict \<Rightarrow> int" where
  "overlap_duration k = k_overlap_end k - k_overlap_start k"

text \<open>\<open>ScheduleEvent.overlaps\<close>.\<close>

definition overlaps :: "schedule_event \<Rightarrow> schedule_event \<Rightarrow> bool" where
  "overlaps a b =
     (if e_day a \<noteq> e_day b then False
      else e_start_minutes a < e_end_minutes b \<and> e_start_minutes b < e_end_minutes a)"

section \<open>The schedule engine (schedule_builder.py)\<close>

text \<open>
  The \<open>courses\<close> dictionary is an association list in insertion order, as a Python
  dictionary iterates. Assigning to a key that is present replaces the value in place
  (\<^const>\<open>AList.update\<close>), \<open>del\<close> removes the entry (\<^const>\<open>AList.delete\<close>).
\<close>

record schedule_builder =
  courses :: "(string \<times> course) list"
  color_index :: nat

definition COLORS :: "string list" where
  "COLORS = [''#CC0000'', ''#3B82F6'', ''#10B981'', ''#8B5CF6'', ''#F59E0B'',
             ''#EC4899'', ''#06B6D4'', ''#84CC16'', ''#F97316'', ''#6366F1'']"

definition empty_schedule :: schedule_builder where
  "empty_schedule = \<lparr>courses = [], color_index = 0\<rparr>"

text \<open>
  A loop that extends a list by what each step yields and is left by the first exception.
\<close>

fun concat_results :: "('a \<Rightarrow> py_error + 'b list) \<Rightarrow> 'a list \<Rightarrow> py_error + 'b list" where
  "concat_results f [] = Inr []"
| "concat_results f (x # xs) =
     (case f x of
        Inl e \<Rightarrow> Inl e
      | Inr ys \<Rightarrow> (case concat_results f xs of Inl e \<Rightarrow> Inl e | Inr zs \<Rightarrow> Inr (ys @ zs)))"

text \<open>\<open>_course_to_events\<close>, one meeting at a time.\<close>

definition meeting_events :: "course \<Rightarrow> string \<Rightarrow> meeting \<Rightarrow> py_error + schedule_event list" where
  "meeting_events c color m =
     (if m_days m = [] \<or> py_upper (m_days m) = ''TBA'' then Inr []
      else
        let days = parse_days_to_full_names (m_days m) in
        case (if m_start_time m \<noteq> [] then parse_time_to_minutes (m_start_time m) else Inr 0) of
          Inl e \<Rightarrow> Inl e
        | Inr start \<Rightarrow>
            (case (if m_end_time m \<noteq> [] then parse_time_to_minutes (m_end_time m) else Inr 0) of
               Inl e \<Rightarrow> Inl e
             | Inr end \<Rightarrow>
                 if start = 0 \<and> end = 0 then Inr []
                 else Inr (map (\<lambda>day.
                        \<lparr>e_course_id = c_id c, e_course_code = c_code c,
                         e_course_title = c_title c, e_section = c_section c,
                         e_section_type = c_section_type c, e_professor = c_professor c,
                         e_day = day, e_start_minutes = start, e_end_minutes = end,
                         e_start_time = m_start_time m, e_end_time = m_end_time m,
                         e_location = m_location m, e_color = Some color,
                         e_column = 0, e_total_columns = 1\<rparr>) days)))"

definition course_to_events :: "course \<Rightarrow> string \<Rightarrow> py_error + schedule_event list" where
  "course_to_events c color = concat_results (meeting_events c color) (c_schedule c)"

text \<open>The two nested loops over events shared by \<open>_detect_conflicts_with\<close> and \<open>get_all_conflicts\<close>.\<close>

definition mk_conflict :: "schedule_event \<Rightarrow> schedule_event \<Rightarrow> schedule_conflict" where
  "mk_conflict a b =
     \<lparr>k_event1 = a, k_event2 = b, k_day = e_day a,
      k_overlap_start = max (e_start_minutes a) (e_start_minutes b),
      k_overlap_end = min (e_end_minutes a) (e_end_minutes b)\<rparr>"

definition conflicts_between :: "schedule_event list \<Rightarrow> schedule_event list \<Rightarrow> schedule_conflict list" where
  "conflicts_between es1 es2 = [mk_conflict a b. a \<leftarrow> es1, b \<leftarrow> es2, overlaps a b]"

definition detect_conflicts_with :: "schedule_builder \<Rightarrow> course \<Rightarrow> py_error + schedule_conflict list" where
  "detect_conflicts_with sb new_course =
     (case course_to_events new_course ''temp'' of
        Inl e \<Rightarrow> Inl e
      | Inr new_events \<Rightarrow>
          concat_results
            (\<lambda>existing_course.
               case course_to_events existing_course ''temp'' of
                 Inl e \<Rightarrow> Inl e
               | Inr existing_events \<Rightarrow> Inr (conflicts_between new_events existing_events))
            (map snd (courses sb)))"

text \<open>
  \<open>add_course\<close> returns the conflicts and the new state; an exception of the conflict scan
  leaves the state as it was.
\<close>

definition add_course :: "schedule_builder \<Rightarrow> course \<Rightarrow> py_error + (schedule_conflict list \<times> schedule_builder)" where
  "add_course sb c =
     (case detect_conflicts_with sb c of
        Inl e \<Rightarrow> Inl e
      | Inr conflicts \<Rightarrow> Inr (conflicts, sb\<lparr>courses := AList.update (c_id c) c (courses sb)\<rparr>))"

definition remove_course :: "schedule_builder \<Rightarrow> string \<Rightarrow> bool \<times> schedule_builder" where
  "remove_course sb course_id =
     (if course_id \<in> fst ` set (courses sb)
      then (True, sb\<lparr>courses := AList.delete course_id (courses sb)\<rparr>)
      else (False, sb))"

definition get_course :: "schedule_builder \<Rightarrow> string \<Rightarrow> course option" where
  "get_course sb course_id = map_of (courses sb) course_id"

definition clear :: "schedule_builder \<Rightarrow> schedule_builder" where
  "clear sb = sb\<lparr>courses := [], color_index := 0\<rparr>"

definition course_count :: "schedule_builder \<Rightarrow> nat" where
  "course_count sb = length (courses sb)"

fun all_conflicts :: "course list \<Rightarrow> py_error + schedule_conflict list" where
  "all_conflicts [] = Inr []"
| "all_conflicts (course1 # rest) =
     (case course_to_events course1 ''temp'' of
        Inl e \<Rightarrow> Inl e
      | Inr events1 \<Rightarrow>
          (case concat_results
                  (\<lambda>course2.
                     case course_to_events course2 ''temp'' of
                       Inl e \<Rightarrow> Inl e
                     | Inr events2 \<Rightarrow> Inr (conflicts_between events1 events2))
                  rest of
             Inl e \<Rightarrow> Inl e
           | Inr found \<Rightarrow>
               (case all_conflicts rest of Inl e \<Rightarrow> Inl e | Inr later \<Rightarrow> Inr (found @ later))))"

definition get_all_conflicts :: "schedule_builder \<Rightarrow> py_error + schedule_conflict list" where
  "get_all_conflicts sb = all_conflicts (map snd (courses sb))"

subsection \<open>Column assignment\<close>

text \<open>
  The inner loop of \<open>_assign_columns\<close>: the leftmost column whose tracked end time is at
  most the start of the event, if there is one.
\<close>

fun find_column :: "int list \<Rightarrow> int \<Rightarrow> nat option" where
  "find_column [] start = None"
| "find_column (col_end # cols) start =
     (if start \<ge> col_end then Some 0 else map_option Suc (find_column cols start))"

text \<open>The outer loop: the events carry their column, the column list its end times.\<close>

fun place_events :: "schedule_event list \<Rightarrow> int list \<Rightarrow> schedule_event list \<times> int list" where
  "place_events [] columns = ([], columns)"
| "place_events (ev # evs) columns =
     (case find_column columns (e_start_minutes ev) of
        Some i \<Rightarrow>
          (case place_events evs (columns[i := e_end_minutes ev]) of
             (placed, final) \<Rightarrow> (ev\<lparr>e_column := i\<rparr> # placed, final))
      | None \<Rightarrow>
          (case place_events evs (columns @ [e_end_minutes ev]) of
             (placed, final) \<Rightarrow> (ev\<lparr>e_column := length columns\<rparr> # placed, final)))"

definition assign_columns :: "schedule_event list \<Rightarrow> schedule_event list" where
  "assign_columns events =
     (case place_events (sort_key (\<lambda>e. (e_start_minutes e, e_end_minutes e)) events) [] of
        (placed, columns) \<Rightarrow>
          let total_cols = (if columns \<noteq> [] then length columns else 1)
          in map (\<lambda>e. e\<lparr>e_total_columns := total_cols\<rparr>) placed)"

subsection \<open>Events of the schedule\<close>

text \<open>
  \<open>get_events\<close>: a colour per key of the dictionary, the events of every course, the
  events grouped by day, and the days laid out in the order of \<open>DAY_ORDER\<close>. The colour
  counter is back at zero before the events are generated, so the state returned is the
  same whether or not the generation raises.
\<close>

definition next_color :: "string \<Rightarrow> (string \<times> string) list \<times> nat \<Rightarrow> (string \<times> string) list \<times> nat" where
  "next_color course_id st =
     (case st of (course_colors, idx) \<Rightarrow>
        (AList.update course_id (COLORS ! (idx mod length COLORS)) course_colors, Suc idx))"

definition group_by_day :: "schedule_event list \<Rightarrow> (string \<rightharpoonup> schedule_event list)" where
  "group_by_day evs =
     foldl (\<lambda>by_day ev.
              by_day(e_day ev \<mapsto> (case by_day (e_day ev) of None \<Rightarrow> [] | Some l \<Rightarrow> l) @ [ev]))
           Map.empty evs"

definition layout_days :: "(string \<rightharpoonup> schedule_event list) \<Rightarrow> schedule_event list" where
  "layout_days by_day =
     concat (map (\<lambda>day. case by_day day of None \<Rightarrow> [] | Some evs \<Rightarrow> assign_columns evs) DAY_ORDER)"

definition get_events :: "schedule_builder \<Rightarrow> (py_error + schedule_event list) \<times> schedule_builder" where
  "get_events sb =
     (let course_colors = fst (fold next_color (map fst (courses sb)) ([], color_index sb));
          sb' = sb\<lparr>color_index := 0\<rparr>;
          generated =
            concat_results
              (\<lambda>c. case map_of course_colors (c_id c) of
                     None \<Rightarrow> Inl KeyError
                   | Some color \<Rightarrow> course_to_events c color)
              (map snd (courses sb))
      in case generated of
           Inl e \<Rightarrow> (Inl e, sb')
         | Inr all_events \<Rightarrow> (Inr (layout_days (group_by_day all_events)), sb'))"

section \<open>Conflict check of the course index (search.py)\<close>

record conflict =
  x_course1_id :: string
  x_course2_id :: string
  x_course1_code :: string
  x_course2_code :: string
  x_overlap_day :: string
  x_overlap_time :: string

text \<open>\<open>_days_overlap\<close>: the common day codes, sorted and joined, or \<open>None\<close>.\<close>

definition days_overlap :: "string \<Rightarrow> string \<Rightarrow> string option" where
  "days_overlap days1 days2 =
     (let d1 = parse_days_to_set days1;
          d2 = parse_days_to_set days2;
          common = filter (\<lambda>d. d \<in> set d2) d1
      in if common \<noteq> [] then Some (py_join '', '' (sort common)) else None)"

text \<open>\<open>_times_overlap\<close>: the four times are parsed in the order of the source.\<close>

definition times_overlap :: "meeting \<Rightarrow> meeting \<Rightarrow> py_error + bool" where
  "times_overlap m1 m2 =
     (case parse_time_to_minutes (m_start_time m1) of
        Inl e \<Rightarrow> Inl e
      | Inr s1 \<Rightarrow>
     (case parse_time_to_minutes (m_end_time m1) of
        Inl e \<Rightarrow> Inl e
      | Inr e1 \<Rightarrow>
     (case parse_time_to_minutes (m_start_time m2) of
        Inl e \<Rightarrow> Inl e
      | Inr s2 \<Rightarrow>
     (case parse_time_to_minutes (m_end_time m2) of
        Inl e \<Rightarrow> Inl e
      | Inr e2 \<Rightarrow> Inr (s1 < e2 \<and> s2 < e1)))))"

text \<open>
  \<open>_check_conflict\<close>: the pairs of meetings in the order of the two nested loops; the
  first pair that overlaps in days and in time is returned. The times are only parsed
  when the joined day string is non-empty.
\<close>

fun first_conflict :: "course \<Rightarrow> course \<Rightarrow> (meeting \<times> meeting) list \<Rightarrow> py_error + conflict option" where
  "first_conflict c1 c2 [] = Inr None"
| "first_conflict c1 c2 ((m1, m2) # rest) =
     (case days_overlap (m_days m1) (m_days m2) of
        None \<Rightarrow> first_conflict c1 c2 rest
      | Some overlap_day \<Rightarrow>
          if overlap_day = [] then first_conflict c1 c2 rest
          else (case times_overlap m1 m2 of
                  Inl e \<Rightarrow> Inl e
                | Inr False \<Rightarrow> first_conflict c1 c2 rest
                | Inr True \<Rightarrow>
                    Inr (Some \<lparr>x_course1_id = c_id c1, x_course2_id = c_id c2,
                               x_course1_code = c_code c1, x_course2_code = c_code c2,
                               x_overlap_day = overlap_day,
                               x_overlap_time = m_start_time m1 @ ''-'' @ m_end_time m1\<rparr>)))"

definition check_conflict :: "course \<Rightarrow> course \<Rightarrow> py_error + conflict option" where
  "check_conflict c1 c2 =
     first_conflict c1 c2 [(m1, m2). m1 \<leftarrow> c_schedule c1, m2 \<leftarrow> c_schedule c2]"

definition conflict_list :: "course \<Rightarrow> course \<Rightarrow> py_error + conflict list" where
  "conflict_list c1 c2 =
     (case check_conflict c1 c2 of
        Inl e \<Rightarrow> Inl e
      | Inr None \<Rightarrow> Inr []
      | Inr (Some k) \<Rightarrow> Inr [k])"

fun detect_conflicts :: "course list \<Rightarrow> py_error + conflict list" where
  "detect_conflicts [] = Inr []"
| "detect_conflicts (c1 # rest) =
     (case concat_results (conflict_list c1) rest of
        Inl e \<Rightarrow> Inl e
      | Inr found \<Rightarrow>
          (case detect_conflicts rest of Inl e \<Rightarrow> Inl e | Inr later \<Rightarrow> Inr (found @ later)))"

section \<open>The trigram index (search.py)\<close>

text \<open>
  Both dictionaries are association lists in insertion order; a set of document ids or of
  trigrams is a list without repetitions. The index is polymorphic in the type of the
  document ids.
\<close>

record 'i trigram_index =
  trigram_to_ids :: "(string \<times> 'i list) list"
  id_to_text :: "('i \<times> string) list"

definition empty_trigram_index :: "'i trigram_index" where
  "empty_trigram_index = \<lparr>trigram_to_ids = [], id_to_text = []\<rparr>"

text \<open>\<open>re.sub(r'\s+', ' ', t)\<close>: \<open>in_run\<close> says that the previous character was whitespace.\<close>

fun collapse_ws_from :: "bool \<Rightarrow> string \<Rightarrow> string" where
  "collapse_ws_from in_run [] = []"
| "collapse_ws_from in_run (c # cs) =
     (if py_isspace c
      then (if in_run then collapse_ws_from True cs else CHR '' '' # collapse_ws_from True cs)
      else c # collapse_ws_from False cs)"

definition normalize :: "string \<Rightarrow> string" where
  "normalize text = collapse_ws_from False (py_strip (py_lower text))"

definition extract_trigrams :: "string \<Rightarrow> string list" where
  "extract_trigrams text =
     (if length text < 3 then (if text \<noteq> [] then [text] else [])
      else remdups (map (\<lambda>i. take 3 (drop i text)) [0..<length text - 2]))"

text \<open>The posting list of a trigram: empty when the trigram is no key.\<close>

definition ids_of :: "(string \<times> 'i list) list \<Rightarrow> string \<Rightarrow> 'i list" where
  "ids_of postings trigram = (case map_of postings trigram of None \<Rightarrow> [] | Some ids \<Rightarrow> ids)"

definition add_posting :: "'i \<Rightarrow> string \<Rightarrow> (string \<times> 'i list) list \<Rightarrow> (string \<times> 'i list) list" where
  "add_posting doc_id trigram postings =
     AList.update trigram (set_add doc_id (ids_of postings trigram)) postings"

definition add :: "'i trigram_index \<Rightarrow> 'i \<Rightarrow> string \<Rightarrow> 'i trigram_index" where
  "add idx doc_id text =
     (let t = normalize text
      in \<lparr>trigram_to_ids = fold (add_posting doc_id) (extract_trigrams t) (trigram_to_ids idx),
           id_to_text = AList.update doc_id t (id_to_text idx)\<rparr>)"

definition count_of :: "('i \<times> int) list \<Rightarrow> 'i \<Rightarrow> int" where
  "count_of match_counts doc_id = (case map_of match_counts doc_id of None \<Rightarrow> 0 | Some n \<Rightarrow> n)"

definition bump :: "'i \<Rightarrow> ('i \<times> int) list \<Rightarrow> ('i \<times> int) list" where
  "bump doc_id match_counts = AList.update doc_id (count_of match_counts doc_id + 1) match_counts"

definition count_matches :: "(string \<times> 'i list) list \<Rightarrow> string list \<Rightarrow> ('i \<times> int) list" where
  "count_matches postings trigrams =
     fold (\<lambda>trigram counts. fold bump (ids_of postings trigram) counts) trigrams []"

definition get_candidates :: "'i trigram_index \<Rightarrow> string \<Rightarrow> int \<Rightarrow> 'i set" where
  "get_candidates idx query min_matches =
     (let trigrams = extract_trigrams (normalize query)
      in if trigrams = [] then set (map fst (id_to_text idx))
         else
           let match_counts = count_matches (trigram_to_ids idx) trigrams
           in set (map fst (filter (\<lambda>(doc_id, n). n \<ge> min_matches) match_counts)))"

text \<open>An index as the program builds one: from the empty index by a sequence of \<open>add\<close> calls.\<close>

definition build_trigram_index :: "('i \<times> string) list \<Rightarrow> 'i trigram_index" where
  "build_trigram_index docs = fold (\<lambda>(doc_id, text) idx. add idx doc_id text) docs empty_trigram_index"

text \<open>
  The candidates in the words of the specification: the indexed ids whose stored text
  shares at least \<open>min_matches\<close> distinct shingles with the normalized query.
\<close>

definition shared_shingles :: "'i trigram_index \<Rightarrow> string \<Rightarrow> 'i \<Rightarrow> nat" where
  "shared_shingles idx query doc_id =
     (case map_of (id_to_text idx) doc_id of
        None \<Rightarrow> 0
      | Some stored \<Rightarrow>
          card (set (extract_trigrams stored) \<inter> set (extract_trigrams (normalize query))))"

definition spec_candidates :: "'i trigram_index \<Rightarrow> string \<Rightarrow> int \<Rightarrow> 'i set" where
  "spec_candidates idx query min_matches =
     {doc_id \<in> fst ` set (id_to_text idx). int (shared_shingles idx query doc_id) \<ge> min_matches}"

section \<open>The bitmap filter index (search.py)\<close>

text \<open>
  A bitmap is a set of positions of the course list. \<open>indices\<close> maps a field name to the
  dictionary of its values; \<open>all_ids\<close> is \<open>None\<close> until \<open>build\<close> has run.
\<close>

record bitmap_index =
  indices :: "(string \<times> (string \<times> nat set) list) list"
  all_ids :: "nat set option"

definition unbuilt_index :: bitmap_index where
  "unbuilt_index = \<lparr>indices = [], all_ids = None\<rparr>"

definition field_dict :: "(string \<times> (string \<times> nat set) list) list \<Rightarrow> string \<Rightarrow> (string \<times> nat set) list" where
  "field_dict ind field = (case map_of ind field of None \<Rightarrow> [] | Some d \<Rightarrow> d)"

definition bitmap_of :: "(string \<times> nat set) list \<Rightarrow> string \<Rightarrow> nat set" where
  "bitmap_of d v = (case map_of d v of None \<Rightarrow> {} | Some b \<Rightarrow> b)"

text \<open>\<open>self.indices[field][value].add(i)\<close> on a \<open>defaultdict(BitMap)\<close>.\<close>

definition index_add :: "string \<Rightarrow> string \<Rightarrow> nat \<Rightarrow> (string \<times> (string \<times> nat set) list) list
    \<Rightarrow> (string \<times> (string \<times> nat set) list) list" where
  "index_add field v i ind =
     (let d = field_dict ind field
      in AList.update field (AList.update v (insert i (bitmap_of d v)) d) ind)"

definition index_course :: "nat \<times> course \<Rightarrow> (string \<times> (string \<times> nat set) list) list
    \<Rightarrow> (string \<times> (string \<times> nat set) list) list" where
  "index_course ic ind =
     (case ic of (i, c) \<Rightarrow>
        let ind1 = index_add ''subject'' (c_department c) i ind;
            ind2 = index_add ''term'' (c_term c) i ind1;
            ind3 = index_add ''college'' (c_college c) i ind2;
            ind4 = (if c_status c \<noteq> [] then index_add ''status'' (c_status c) i ind3 else ind3)
        in fold (\<lambda>hub. index_add ''hub'' hub i) (c_hub_units c) ind4)"

definition build :: "course list \<Rightarrow> bitmap_index" where
  "build cs =
     \<lparr>indices = fold index_course (enumerate 0 cs)
                  [(''subject'', []), (''term'', []), (''hub'', []), (''college'', []),
                   (''status'', [])],
      all_ids = Some {0..<length cs}\<rparr>"

text \<open>A keyword argument of \<open>filter\<close>: \<open>None\<close>, one string or a list of strings.\<close>

datatype filter_value = NoValue | OneValue string | Values "string list"

definition falsy :: "filter_value \<Rightarrow> bool" where
  "falsy v = (case v of NoValue \<Rightarrow> True | OneValue s \<Rightarrow> s = [] | Values l \<Rightarrow> l = [])"

definition value_list :: "filter_value \<Rightarrow> string list" where
  "value_list v = (case v of NoValue \<Rightarrow> [] | OneValue s \<Rightarrow> [s] | Values l \<Rightarrow> l)"

definition field_matches :: "(string \<times> nat set) list \<Rightarrow> string list \<Rightarrow> nat set" where
  "field_matches d vals =
     fold (\<lambda>v acc. case map_of d v of Some b \<Rightarrow> acc \<union> b | None \<Rightarrow> acc) vals {}"

definition filter_step :: "bitmap_index \<Rightarrow> string \<times> filter_value \<Rightarrow> nat set \<Rightarrow> nat set" where
  "filter_step idx fv result =
     (case fv of (field, vals) \<Rightarrow>
        if falsy vals \<or> map_of (indices idx) field = None then result
        else
          let matches = field_matches (field_dict (indices idx) field) (value_list vals)
          in if matches \<noteq> {} then result \<inter> matches else result)"

definition filter_ids :: "bitmap_index \<Rightarrow> (string \<times> filter_value) list \<Rightarrow> py_error + nat set" where
  "filter_ids idx filters =
     (case all_ids idx of
        None \<Rightarrow> Inl AttributeError
      | Some everything \<Rightarrow> Inr (fold (filter_step idx) filters everything))"

definition get_values :: "bitmap_index \<Rightarrow> string \<Rightarrow> string list" where
  "get_values idx field =
     (case map_of (indices idx) field of None \<Rightarrow> [] | Some d \<Rightarrow> sort (map fst d))"

text \<open>A value occurs in the index of a field.\<close>

definition indexed_value :: "bitmap_index \<Rightarrow> string \<Rightarrow> string \<Rightarrow> bool" where
  "indexed_value idx field v = (map_of (field_dict (indices idx) field) v \<noteq> None)"

section \<open>Grouping of sections (search.py, utils/constants.py)\<close>

definition PRIMARY_SECTION_TYPES :: "string list" where
  "PRIMARY_SECTION_TYPES =
     [''Lecture'', ''IND'', ''DRS'', ''EXP'', ''MUO'', ''PLB'', ''THP'', ''OTH'', ''MUE'', []]"

definition SECONDARY_SECTION_TYPES :: "string list" where
  "SECONDARY_SECTION_TYPES = [''Discussion'', ''Laboratory'']"

record related_section =
  r_id :: string
  r_section :: string
  r_section_type :: string
  r_professor :: string
  r_schedule :: "meeting list"
  r_status :: string
  r_enrollment_cap :: int
  r_enrollment_total :: int

text \<open>A grouped course has the fields of its primary section and the related sections.\<close>

record grouped_course = course +
  g_related_sections :: "related_section list"

definition from_course :: "course \<Rightarrow> related_section list \<Rightarrow> grouped_course" where
  "from_course c related = course.extend c \<lparr>g_related_sections = related\<rparr>"

definition to_related :: "course \<Rightarrow> related_section" where
  "to_related sec =
     \<lparr>r_id = c_id sec, r_section = c_section sec, r_section_type = c_section_type sec,
      r_professor = c_professor sec, r_schedule = c_schedule sec, r_status = c_status sec,
      r_enrollment_cap = c_enrollment_cap sec, r_enrollment_total = c_enrollment_total sec\<rparr>"

definition get_section_prefix :: "string \<Rightarrow> string" where
  "get_section_prefix sec = py_upper (takeWhile py_isalpha_char sec)"

definition sort_key_step :: "char \<Rightarrow> string \<times> string \<Rightarrow> string \<times> string" where
  "sort_key_step ch st =
     (case st of (letters, num_str) \<Rightarrow>
        if py_isalpha_char ch then (if num_str = [] then (letters @ [ch], num_str) else (letters, num_str))
        else if py_isdigit_char ch then (letters, num_str @ [ch])
        else (letters, num_str))"

definition section_sort_key :: "string \<Rightarrow> string \<times> int" where
  "section_sort_key sec =
     (case fold sort_key_step sec ([], []) of
        (letters, num_str) \<Rightarrow>
          (py_upper letters, if num_str \<noteq> [] then int_of_digits num_str else 0))"

definition related_key :: "related_section \<Rightarrow> string \<times> string \<times> int" where
  "related_key s = (r_section_type s, section_sort_key (r_section s))"

text \<open>The first primary section of each non-empty letter prefix.\<close>

definition prefix_step :: "course \<Rightarrow> (string \<times> course) list \<Rightarrow> (string \<times> course) list" where
  "prefix_step primary prefix_to_primary =
     (let letters = get_section_prefix (c_section primary)
      in if letters \<noteq> [] \<and> map_of prefix_to_primary letters = None
         then prefix_to_primary @ [(letters, primary)] else prefix_to_primary)"

definition related_of :: "(string \<times> related_section list) list \<Rightarrow> string \<Rightarrow> related_section list" where
  "related_of primary_to_related i = (case map_of primary_to_related i of None \<Rightarrow> [] | Some l \<Rightarrow> l)"

definition append_related :: "string \<Rightarrow> related_section \<Rightarrow> (string \<times> related_section list) list
    \<Rightarrow> (string \<times> related_section list) list" where
  "append_related i r primary_to_related =
     AList.update i (related_of primary_to_related i @ [r]) primary_to_related"

definition match_step :: "(string \<times> course) list \<Rightarrow> course
    \<Rightarrow> (string \<times> related_section list) list \<times> course list
    \<Rightarrow> (string \<times> related_section list) list \<times> course list" where
  "match_step prefix_to_primary sec st =
     (case st of (primary_to_related, unmatched) \<Rightarrow>
        (case map_of prefix_to_primary (get_section_prefix (c_section sec)) of
           Some matched_primary \<Rightarrow>
             (append_related (c_id matched_primary) (to_related sec) primary_to_related, unmatched)
         | None \<Rightarrow> (primary_to_related, unmatched @ [sec])))"

text \<open>
  One (code, term) partition, from its primary and secondary sections as the two list
  comprehensions of the source select them. Sorting the related list of a primary in
  place does not change what a later primary reads, since the sort is stable.
\<close>

definition group_split :: "course list \<Rightarrow> course list \<Rightarrow> grouped_course list" where
  "group_split primaries0 secondaries0 =
     (let promote = (primaries0 = [] \<and> secondaries0 \<noteq> []);
          primaries = (if promote then take 1 secondaries0 else primaries0);
          secondaries = (if promote then drop 1 secondaries0 else secondaries0);
          prefix_to_primary = fold prefix_step primaries [];
          empty_related = fold (\<lambda>p. AList.update (c_id p) []) primaries [];
          matched = fold (match_step prefix_to_primary) secondaries (empty_related, []);
          unmatched = snd matched;
          primary_to_related =
            (if unmatched \<noteq> [] \<and> primaries \<noteq> []
             then fold (\<lambda>sec m. fold (\<lambda>p. append_related (c_id p) (to_related sec)) primaries m)
                    unmatched (fst matched)
             else fst matched)
      in map (\<lambda>p. from_course p (sort_key related_key (related_of primary_to_related (c_id p))))
           primaries)"

definition group_partition :: "course list \<Rightarrow> grouped_course list" where
  "group_partition grp =
     group_split (filter (\<lambda>c. c_section_type c \<in> set PRIMARY_SECTION_TYPES) grp)
                 (filter (\<lambda>c. c_section_type c \<in> set SECONDARY_SECTION_TYPES) grp)"

definition partition_step :: "course \<Rightarrow> ((string \<times> string) \<times> course list) list
    \<Rightarrow> ((string \<times> string) \<times> course list) list" where
  "partition_step c by_code_term =
     (let key = (c_code c, c_term c)
      in AList.update key ((case map_of by_code_term key of None \<Rightarrow> [] | Some l \<Rightarrow> l) @ [c])
           by_code_term)"

definition group_sections :: "course list \<Rightarrow> grouped_course list" where
  "group_sections cs = concat (map (\<lambda>(key, grp). group_partition grp) (fold partition_step cs []))"

section \<open>Sample data\<close>

definition sample_meeting :: "string \<Rightarrow> string \<Rightarrow> string \<Rightarrow> meeting" where
  "sample_meeting d s e = \<lparr>m_days = d, m_start_time = s, m_end_time = e, m_location = ''CAS 313''\<rparr>"

definition sample_course :: "string \<Rightarrow> string \<Rightarrow> string \<Rightarrow> meeting list \<Rightarrow> course" where
  "sample_course i sec ty ms =
     \<lparr>c_id = i, c_code = ''CAS CS 111'', c_title = ''Intro'', c_description = [],
      c_section = sec, c_professor = ''Staff'', c_term = ''Fall 2026'', c_credits = 4,
      c_hub_units = [], c_department = ''CS'', c_college = ''CAS'', c_schedule = ms,
      c_status = ''Open'', c_enrollment_cap = 0, c_enrollment_total = 0,
      c_section_type = ty, c_class_nbr = 0\<rparr>"

definition sample_event :: "string \<Rightarrow> string \<Rightarrow> string \<Rightarrow> int \<Rightarrow> int \<Rightarrow> string \<Rightarrow> string
    \<Rightarrow> string \<Rightarrow> nat \<Rightarrow> nat \<Rightarrow> schedule_event" where
  "sample_event i sec day s e st et color col tot =
     \<lparr>e_course_id = i, e_course_code = ''CAS CS 111'', e_course_title = ''Intro'',
      e_section = sec, e_section_type = ''Lecture'', e_professor = ''Staff'', e_day = day,
      e_start_minutes = s, e_end_minutes = e, e_start_time = st, e_end_time = et,
      e_location = ''CAS 313'', e_color = Some color, e_column = col, e_total_columns = tot\<rparr>"

definition back_to_back :: schedule_builder where
  "back_to_back =
     \<lparr>courses = [(''a'', sample_course ''a'' ''A1'' ''Lecture'' [sample_meeting ''M'' ''10:00'' ''11:00'']),
                 (''b'', sample_course ''b'' ''B1'' ''Lecture'' [sample_meeting ''M'' ''11:00'' ''12:00''])],
      color_index = 0\<rparr>"

section \<open>Predicates of the statements\<close>

text \<open>Two events of one column do not overlap when the earlier one ends before the later starts.\<close>

definition column_order :: "schedule_event \<Rightarrow> schedule_event \<Rightarrow> bool" where
  "column_order a b = (e_column a = e_column b \<longrightarrow> e_end_minutes a \<le> e_start_minutes b)"

definition no_clash :: "schedule_event \<Rightarrow> schedule_event \<Rightarrow> bool" where
  "no_clash a b =
     (e_day a = e_day b \<and> e_column a = e_column b \<longrightarrow>
      \<not> (e_start_minutes a < e_end_minutes b \<and> e_start_minutes b < e_end_minutes a))"

definition noon_events :: "schedule_event list" where
  "noon_events =
     [sample_event ''c'' ''C1'' ''Monday'' 810 900 ''13:30'' ''15:00'' ''#10B981'' 0 1,
      sample_event ''a'' ''A1'' ''Monday'' 720 780 ''12:00'' ''13:00'' ''#CC0000'' 0 1,
      sample_event ''b'' ''B1'' ''Monday'' 750 840 ''12:30'' ''14:00'' ''#3B82F6'' 0 1]"

definition two_clusters :: "schedule_event list" where
  "two_clusters =
     [sample_event ''a'' ''A1'' ''Monday'' 540 600 ''9:00'' ''10:00'' ''#CC0000'' 0 1,
      sample_event ''b'' ''B1'' ''Monday'' 570 630 ''9:30'' ''10:30'' ''#3B82F6'' 0 1,
      sample_event ''c'' ''C1'' ''Monday'' 840 900 ''14:00'' ''15:00'' ''#10B981'' 0 1]"

definition one_course_per_id :: "schedule_builder \<Rightarrow> bool" where
  "one_course_per_id sb =
     (distinct (map fst (courses sb)) \<and> list_all (\<lambda>(k, c). c_id c = k) (courses sb))"

definition replacement_course :: course where
  "replacement_course = sample_course ''a'' ''A2'' ''Lecture'' []"

fun all_pairs :: "'a list \<Rightarrow> ('a \<times> 'a) list" where
  "all_pairs [] = []"
| "all_pairs (x # xs) = map (Pair x) xs @ all_pairs xs"

definition conflict_ids :: "conflict \<Rightarrow> string \<times> string" where
  "conflict_ids k = (x_course1_id k, x_course2_id k)"

definition event_ids :: "schedule_conflict \<Rightarrow> string \<times> string" where
  "event_ids k = (e_course_id (k_event1 k), e_course_id (k_event2 k))"

definition distinct_sections :: "(string \<times> string) list \<Rightarrow> bool" where
  "distinct_sections ps = (\<forall>(a, b) \<in> set ps. a \<noteq> b \<and> (b, a) \<notin> set ps)"

definition single_course :: schedule_builder where
  "single_course =
     \<lparr>courses = [(''a'', sample_course ''a'' ''A1'' ''Lecture'' [sample_meeting ''M'' ''10:00'' ''11:00''])],
      color_index = 0\<rparr>"

definition clashing_pair :: schedule_builder where
  "clashing_pair =
     \<lparr>courses = [(''a'', sample_course ''a'' ''A1'' ''Lecture'' [sample_meeting ''M'' ''10:00'' ''11:00'']),
                 (''b'', sample_course ''b'' ''B1'' ''Lecture'' [sample_meeting ''M'' ''10:30'' ''11:30''])],
      color_index = 0\<rparr>"

definition course_day_names :: "course \<Rightarrow> string set" where
  "course_day_names c = (\<Union>m \<in> set (c_schedule c). set (parse_days_to_full_names (m_days m)))"

definition course_day_codes :: "course \<Rightarrow> string set" where
  "course_day_codes c = (\<Union>m \<in> set (c_schedule c). set (parse_days_to_set (m_days m)))"

definition conflict_summary :: "schedule_conflict \<Rightarrow> (string \<times> string) \<times> string \<times> int" where
  "conflict_summary k = (event_ids k, k_day k, overlap_duration k)"

definition mwf_early :: course where
  "mwf_early = sample_course ''a'' ''A1'' ''Lecture'' [sample_meeting ''MWF'' ''10:00'' ''11:00'']"

definition mwf_late :: course where
  "mwf_late = sample_course ''b'' ''B1'' ''Lecture'' [sample_meeting ''MWF'' ''10:30'' ''11:30'']"

definition tuth_late :: course where
  "tuth_late = sample_course ''c'' ''C1'' ''Lecture'' [sample_meeting ''TuTh'' ''10:30'' ''11:30'']"

definition mwf_schedule :: schedule_builder where
  "mwf_schedule = \<lparr>courses = [(''a'', mwf_early), (''b'', mwf_late)], color_index = 0\<rparr>"

definition mwf_single :: schedule_builder where
  "mwf_single = \<lparr>courses = [(''a'', mwf_early)], color_index = 0\<rparr>"

definition mixed_schedule :: schedule_builder where
  "mixed_schedule = \<lparr>courses = [(''a'', mwf_early), (''c'', tuth_late)], color_index = 0\<rparr>"

definition malformed_time_course :: course where
  "malformed_time_course =
     sample_course ''a'' ''A1'' ''Lecture'' [sample_meeting ''MWF'' ''a:b'' ''11:00'']"

definition two_departments :: "course list" where
  "two_departments =
     [(sample_course ''m'' ''A1'' ''Lecture'' [])\<lparr>c_department := ''MA''\<rparr>,
      (sample_course ''p'' ''A1'' ''Lecture'' [])\<lparr>c_department := ''PH''\<rparr>]"

definition nonempty_bitmaps :: "(string \<times> (string \<times> nat set) list) list \<Rightarrow> bool" where
  "nonempty_bitmaps ind = (\<forall>field v b. map_of (field_dict ind field) v = Some b \<longrightarrow> b \<noteq> {})"

definition lecture_a1 :: course where "lecture_a1 = sample_course ''l-a1'' ''A1'' ''Lecture'' []"

definition lecture_b1 :: course where "lecture_b1 = sample_course ''l-b1'' ''B1'' ''Lecture'' []"

definition discussion_a2 :: course where "discussion_a2 = sample_course ''d-a2'' ''A2'' ''Discussion'' []"

definition discussion_d1 :: course where "discussion_d1 = sample_course ''d-d1'' ''D1'' ''Discussion'' []"

text \<open>Two documents added once each, and one id added twice with different texts.\<close>

definition two_documents :: "(nat \<times> string) list" where
  "two_documents = [(0, ''CS  111''), (1, ''MA 123'')]"

definition readded_document :: "(nat \<times> string) list" where
  "readded_document = [(0, ''abc''), (0, ''xyz'')]"

section \<open>Column assignment never overlaps two events of a column\<close>

lemma find_column_Some:
  "find_column cols s = Some i \<Longrightarrow> i < length cols \<and> cols ! i \<le> s"
  by (induction cols arbitrary: i) (auto split: if_splits)

lemma find_column_None:
  "find_column cols s = None \<Longrightarrow> \<forall>c \<in> set cols. s < c"
  by (induction cols) (auto split: if_splits)

lemma fst_place_events_Cons:
  "fst (place_events (ev # evs) cols) =
     (case find_column cols (e_start_minutes ev) of
        Some i \<Rightarrow> ev\<lparr>e_column := i\<rparr> # fst (place_events evs (cols[i := e_end_minutes ev]))
      | None \<Rightarrow> ev\<lparr>e_column := length cols\<rparr> # fst (place_events evs (cols @ [e_end_minutes ev])))"
  by (simp split: option.splits prod.splits)

lemma place_events_starts:
  "map e_start_minutes (fst (place_events es cols)) = map e_start_minutes es"
  by (induction es arbitrary: cols) (simp_all add: fst_place_events_Cons del: place_events.simps(2) split: option.splits)

lemma place_events_ends:
  "map e_end_minutes (fst (place_events es cols)) = map e_end_minutes es"
  by (induction es arbitrary: cols) (simp_all add: fst_place_events_Cons del: place_events.simps(2) split: option.splits)

lemma place_events_days:
  "map e_day (fst (place_events es cols)) = map e_day es"
  by (induction es arbitrary: cols) (simp_all add: fst_place_events_Cons del: place_events.simps(2) split: option.splits)

lemma place_events_start_mem:
  assumes "y \<in> set (fst (place_events es cols))"
  shows "e_start_minutes y \<in> e_start_minutes ` set es"
proof -
  from assms have "e_start_minutes y \<in> set (map e_start_minutes (fst (place_events es cols)))"
    by simp
  then show ?thesis by (simp add: place_events_starts)
qed

lemma place_events_column_bound:
  "sorted (map e_start_minutes es) \<Longrightarrow> y \<in> set (fst (place_events es cols)) \<Longrightarrow>
   e_column y < length cols \<Longrightarrow> cols ! e_column y \<le> e_start_minutes y"
proof (induction es arbitrary: cols)
  case Nil
  then show ?case by simp
next
  case (Cons ev evs)
  have sorted_tl: "sorted (map e_start_minutes evs)"
    and first: "\<forall>z \<in> set evs. e_start_minutes ev \<le> e_start_minutes z"
    using Cons.prems(1) by auto
  show ?case
  proof (cases "find_column cols (e_start_minutes ev)")
    case None
    let ?cols' = "cols @ [e_end_minutes ev]"
    from None Cons.prems(2)
    have "y = ev\<lparr>e_column := length cols\<rparr> \<or> y \<in> set (fst (place_events evs ?cols'))"
      by (simp add: fst_place_events_Cons del: place_events.simps(2))
    then show ?thesis
    proof
      assume "y = ev\<lparr>e_column := length cols\<rparr>"
      with Cons.prems(3) show ?thesis by simp
    next
      assume y: "y \<in> set (fst (place_events evs ?cols'))"
      from Cons.prems(3) have "e_column y < length ?cols'" by simp
      from Cons.IH[OF sorted_tl y this] Cons.prems(3) show ?thesis
        by (simp add: nth_append)
    qed
  next
    case (Some i)
    let ?cols' = "cols[i := e_end_minutes ev]"
    from find_column_Some[OF Some] have i: "i < length cols" "cols ! i \<le> e_start_minutes ev"
      by auto
    from Some Cons.prems(2)
    have "y = ev\<lparr>e_column := i\<rparr> \<or> y \<in> set (fst (place_events evs ?cols'))"
      by (simp add: fst_place_events_Cons del: place_events.simps(2))
    then show ?thesis
    proof
      assume "y = ev\<lparr>e_column := i\<rparr>"
      with i show ?thesis by simp
    next
      assume y: "y \<in> set (fst (place_events evs ?cols'))"
      show ?thesis
      proof (cases "e_column y = i")
        case True
        from place_events_start_mem[OF y] first
        have "e_start_minutes ev \<le> e_start_minutes y" by auto
        with i True show ?thesis by simp
      next
        case False
        from Cons.prems(3) have "e_column y < length ?cols'" by simp
        from Cons.IH[OF sorted_tl y this] False show ?thesis by simp
      qed
    qed
  qed
qed

lemma place_events_column_order:
  "sorted (map e_start_minutes es) \<Longrightarrow> sorted_wrt column_order (fst (place_events es cols))"
proof (induction es arbitrary: cols)
  case Nil
  then show ?case by simp
next
  case (Cons ev evs)
  have sorted_tl: "sorted (map e_start_minutes evs)"
    using Cons.prems by auto
  show ?case
  proof (cases "find_column cols (e_start_minutes ev)")
    case None
    let ?cols' = "cols @ [e_end_minutes ev]"
    have "column_order (ev\<lparr>e_column := length cols\<rparr>) y"
      if y: "y \<in> set (fst (place_events evs ?cols'))" for y
    proof -
      have "e_end_minutes ev \<le> e_start_minutes y" if c: "e_column y = length cols"
      proof -
        from c have "e_column y < length ?cols'" by simp
        from place_events_column_bound[OF sorted_tl y this] c show ?thesis by simp
      qed
      then show ?thesis by (auto simp: column_order_def)
    qed
    with None Cons.IH[OF sorted_tl, of ?cols'] show ?thesis
      by (simp add: fst_place_events_Cons del: place_events.simps(2))
  next
    case (Some i)
    let ?cols' = "cols[i := e_end_minutes ev]"
    from find_column_Some[OF Some] have i: "i < length cols" by simp
    have "column_order (ev\<lparr>e_column := i\<rparr>) y"
      if y: "y \<in> set (fst (place_events evs ?cols'))" for y
    proof -
      have "e_end_minutes ev \<le> e_start_minutes y" if c: "e_column y = i"
      proof -
        from c i have "e_column y < length ?cols'" by simp
        from place_events_column_bound[OF sorted_tl y this] c i show ?thesis by simp
      qed
      then show ?thesis by (auto simp: column_order_def)
    qed
    with Some Cons.IH[OF sorted_tl, of ?cols'] show ?thesis
      by (simp add: fst_place_events_Cons del: place_events.simps(2))
  qed
qed

lemma sorted_by_start:
  "sorted (map e_start_minutes (sort_key (\<lambda>e. (e_start_minutes e, e_end_minutes e)) evs))"
proof -
  let ?k = "\<lambda>e. (e_start_minutes e, e_end_minutes e)"
  have "sorted (map ?k (sort_key ?k evs))" by (rule sorted_sort_key)
  then have "sorted_wrt (\<lambda>a b. ?k a \<le> ?k b) (sort_key ?k evs)"
    by (simp add: sorted_map)
  then have "sorted_wrt (\<lambda>a b. e_start_minutes a \<le> e_start_minutes b) (sort_key ?k evs)"
    by (rule sorted_wrt_mono_rel[rotated]) (auto simp: less_eq_prod_def)
  then show ?thesis by (simp add: sorted_map)
qed

lemma assign_columns_no_clash: "sorted_wrt no_clash (assign_columns evs)"
proof -
  let ?sorted = "sort_key (\<lambda>e. (e_start_minutes e, e_end_minutes e)) evs"
  have "sorted_wrt column_order (fst (place_events ?sorted []))"
    by (rule place_events_column_order[OF sorted_by_start])
  then have "sorted_wrt (\<lambda>a b. no_clash (a\<lparr>e_total_columns := t\<rparr>) (b\<lparr>e_total_columns := t\<rparr>))
               (fst (place_events ?sorted []))" for t
    by (rule sorted_wrt_mono_rel[rotated]) (auto simp: column_order_def no_clash_def)
  then show ?thesis
    by (cases "place_events ?sorted []") (simp add: assign_columns_def sorted_wrt_map)
qed

lemma assign_columns_days: "e_day ` set (assign_columns evs) = e_day ` set evs"
proof -
  let ?sorted = "sort_key (\<lambda>e. (e_start_minutes e, e_end_minutes e)) evs"
  have "set (map e_day (fst (place_events ?sorted []))) = set (map e_day ?sorted)"
    by (simp only: place_events_days)
  then have "e_day ` set (fst (place_events ?sorted [])) = e_day ` set evs" by simp
  then show ?thesis
    by (cases "place_events ?sorted []") (simp add: assign_columns_def image_image)
qed

lemma group_by_day_filter:
  "group_by_day evs d =
     (if filter (\<lambda>e. e_day e = d) evs = [] then None else Some (filter (\<lambda>e. e_day e = d) evs))"
  unfolding group_by_day_def
  by (induction evs rule: rev_induct) (auto split: option.splits if_splits)

lemma layout_days_no_clash_aux:
  assumes "distinct ds" and "\<And>d. d \<in> set ds \<Longrightarrow> sorted_wrt no_clash (F d)"
    and "\<And>d x. d \<in> set ds \<Longrightarrow> x \<in> set (F d) \<Longrightarrow> e_day x = d"
  shows "sorted_wrt no_clash (concat (map F ds))"
  using assms
proof (induction ds)
  case Nil
  then show ?case by simp
next
  case (Cons d ds)
  have "no_clash x y" if "x \<in> set (F d)" "y \<in> set (concat (map F ds))" for x y
  proof -
    from that(2) obtain d' where d': "d' \<in> set ds" "y \<in> set (F d')" by auto
    from that(1) Cons.prems(3)[of d x] have "e_day x = d" by simp
    moreover from d' Cons.prems(3)[of d' y] have "e_day y = d'" by simp
    moreover from d' Cons.prems(1) have "d \<noteq> d'" by auto
    ultimately have "e_day x \<noteq> e_day y" by simp
    then show ?thesis by (simp add: no_clash_def)
  qed
  with Cons show ?case by (auto simp: sorted_wrt_append)
qed

lemma layout_days_no_clash: "sorted_wrt no_clash (layout_days (group_by_day evs))"
  unfolding layout_days_def
proof (rule layout_days_no_clash_aux)
  show "distinct DAY_ORDER" by (simp add: DAY_ORDER_def)
next
  fix d
  show "sorted_wrt no_clash (case group_by_day evs d of None \<Rightarrow> [] | Some evs \<Rightarrow> assign_columns evs)"
    by (simp add: assign_columns_no_clash split: option.splits)
next
  fix d x
  assume "x \<in> set (case group_by_day evs d of None \<Rightarrow> [] | Some evs \<Rightarrow> assign_columns evs)"
  then have "e_day x \<in> e_day ` set (filter (\<lambda>e. e_day e = d) evs)"
    using assign_columns_days[of "filter (\<lambda>e. e_day e = d) evs"]
    by (auto simp: group_by_day_filter split: if_splits)
  then show "e_day x = d" by auto
qed

text \<open>
  Claim C1. Whenever \<open>get_events\<close> returns a list, two events at different positions
  of the list that have the same day and the same column do not overlap in time: it is
  never the case that each starts before the other ends.
\<close>

theorem get_events_columns_disjoint:
  assumes "fst (get_events sb) = Inr evs"
    and "i < length evs" and "j < length evs" and "i \<noteq> j"
    and "e_day (evs ! i) = e_day (evs ! j)"
    and "e_column (evs ! i) = e_column (evs ! j)"
  shows "\<not> (e_start_minutes (evs ! i) < e_end_minutes (evs ! j) \<and>
            e_start_minutes (evs ! j) < e_end_minutes (evs ! i))"
proof -
  from assms(1) obtain all_events where "evs = layout_days (group_by_day all_events)"
    by (auto simp: get_events_def Let_def split: sum.splits)
  then have sw: "sorted_wrt no_clash evs" by (simp add: layout_days_no_clash)
  have "no_clash (evs ! a) (evs ! b)" if "a < b" "b < length evs" for a b
    using sw that by (simp add: sorted_wrt_iff_nth_less)
  then have "no_clash (evs ! i) (evs ! j) \<or> no_clash (evs ! j) (evs ! i)"
    using assms(2-4) by (metis nat_neq_iff)
  with assms(5,6) show ?thesis by (auto simp: no_clash_def)
qed

lemma back_to_back_events:
  "fst (get_events back_to_back) =
     Inr [sample_event ''a'' ''A1'' ''Monday'' 600 660 ''10:00'' ''11:00'' ''#CC0000'' 0 1,
          sample_event ''b'' ''B1'' ''Monday'' 660 720 ''11:00'' ''12:00'' ''#3B82F6'' 0 1]"
  by code_simp

theorem get_events_columns_disjoint_witness:
  "\<exists>evs. fst (get_events back_to_back) = Inr evs \<and> 0 < length evs \<and> 1 < length evs \<and>
     e_day (evs ! 0) = e_day (evs ! 1) \<and> e_column (evs ! 0) = e_column (evs ! 1) \<and>
     \<not> (e_start_minutes (evs ! 0) < e_end_minutes (evs ! 1) \<and>
        e_start_minutes (evs ! 1) < e_end_minutes (evs ! 0))"
proof -
  let ?evs = "[sample_event ''a'' ''A1'' ''Monday'' 600 660 ''10:00'' ''11:00'' ''#CC0000'' 0 1,
          sample_event ''b'' ''B1'' ''Monday'' 660 720 ''11:00'' ''12:00'' ''#3B82F6'' 0 1]"
  have l0: "0 < length ?evs" and l1: "1 < length ?evs" by simp_all
  have d: "e_day (?evs ! 0) = e_day (?evs ! 1)" by (simp add: sample_event_def)
  have c: "e_column (?evs ! 0) = e_column (?evs ! 1)" by (simp add: sample_event_def)
  have ne: "(0::nat) \<noteq> 1" by simp
  from get_events_columns_disjoint[OF back_to_back_events l0 l1 ne d c]
  have "\<not> (e_start_minutes (?evs ! 0) < e_end_minutes (?evs ! 1) \<and>
        e_start_minutes (?evs ! 1) < e_end_minutes (?evs ! 0))" .
  with back_to_back_events l0 l1 d c show ?thesis by blast
qed

section \<open>Columns and the column count of a day\<close>

lemma place_events_columns_used:
  "e_column ` set (fst (place_events es cols)) \<union> {0..<length cols}
     = {0..<length (snd (place_events es cols))}"
proof (induction es arbitrary: cols)
  case Nil
  then show ?case by simp
next
  case (Cons ev evs)
  show ?case
  proof (cases "find_column cols (e_start_minutes ev)")
    case None
    let ?cols' = "cols @ [e_end_minutes ev]"
    obtain placed final where pf: "place_events evs ?cols' = (placed, final)"
      by (cases "place_events evs ?cols'")
    have "{0..<length ?cols'} = insert (length cols) {0..<length cols}" by auto
    with Cons.IH[of ?cols'] pf
    have "insert (length cols) (e_column ` set placed) \<union> {0..<length cols} = {0..<length final}"
      by simp
    with None pf show ?thesis by simp
  next
    case (Some i)
    let ?cols' = "cols[i := e_end_minutes ev]"
    obtain placed final where pf: "place_events evs ?cols' = (placed, final)"
      by (cases "place_events evs ?cols'")
    from find_column_Some[OF Some] have "i \<in> {0..<length cols}" by simp
    moreover from Cons.IH[of ?cols'] pf
    have "e_column ` set placed \<union> {0..<length cols} = {0..<length final}" by simp
    ultimately
    have "insert i (e_column ` set placed) \<union> {0..<length cols} = {0..<length final}"
      by blast
    with Some pf show ?thesis by simp
  qed
qed

lemma place_events_length: "length (fst (place_events es cols)) = length es"
  by (induction es arbitrary: cols) (simp_all add: fst_place_events_Cons del: place_events.simps(2) split: option.splits)

lemma assign_columns_total:
  assumes "e \<in> set (assign_columns evs)"
  shows "e_total_columns e = length (snd (place_events (sort_key (\<lambda>e. (e_start_minutes e, e_end_minutes e)) evs) []))"
    and "e_total_columns e = card (e_column ` set (assign_columns evs))"
proof -
  let ?sorted = "sort_key (\<lambda>e. (e_start_minutes e, e_end_minutes e)) evs"
  obtain placed cols where pc: "place_events ?sorted [] = (placed, cols)" by (cases "place_events ?sorted []")
  from place_events_columns_used[of ?sorted "[]"] pc
  have used: "e_column ` set placed = {0..<length cols}" by simp
  from assms pc have "placed \<noteq> []" by (auto simp: assign_columns_def)
  with used have ne: "cols \<noteq> []" by auto
  let ?t = "length cols"
  from pc ne have ac: "assign_columns evs = map (\<lambda>e. e\<lparr>e_total_columns := ?t\<rparr>) placed"
    by (simp add: assign_columns_def)
  with assms show "e_total_columns e = length (snd (place_events ?sorted []))"
    using pc by auto
  have "e_column ` set (assign_columns evs) = e_column ` set placed"
    by (simp add: ac image_image)
  with used have "card (e_column ` set (assign_columns evs)) = ?t" by simp
  with ac assms show "e_total_columns e = card (e_column ` set (assign_columns evs))" by auto
qed

lemma sort_three:
  fixes f :: "'a \<Rightarrow> 'b::linorder"
  assumes "mset xs = {#a, b, c#}" "f a < f b" "f b < f c"
  shows "sort_key f xs = [a, b, c]"
proof (rule properties_for_sort_key)
  show "mset [a, b, c] = mset xs" using assms(1) by simp
  show "sorted (map f [a, b, c])" using assms(2,3) by auto
  fix k assume k: "k \<in> set [a, b, c]"
  have "mset (filter (\<lambda>x. f k = f x) xs) = filter_mset (\<lambda>x. f k = f x) {#a, b, c#}"
    using assms(1) by (metis mset_filter)
  also have "\<dots> = {#k#}"
  proof -
    from assms(2,3) have "f a \<noteq> f b" "f b \<noteq> f c" "f a \<noteq> f c" by auto
    moreover from k have "k = a \<or> k = b \<or> k = c" by simp
    ultimately show ?thesis by (elim disjE) simp_all
  qed
  finally have "filter (\<lambda>x. f k = f x) xs = [k]" by (simp only: mset_single_iff)
  moreover have "filter (\<lambda>x. f k = f x) [a, b, c] = [k]"
  proof -
    from assms(2,3) have "f a \<noteq> f b" "f b \<noteq> f c" "f a \<noteq> f c" by auto
    moreover from k have "k = a \<or> k = b \<or> k = c" by simp
    ultimately show ?thesis by (elim disjE) simp_all
  qed
  ultimately show "filter (\<lambda>x. f k = f x) [a, b, c] = filter (\<lambda>x. f k = f x) xs" by simp
qed

text \<open>
  Claim C4. Three events of one day at 12:00-13:00, 12:30-14:00 and 13:30-15:00, given in
  any order, come out of the column assignment in this order with columns 0, 1 and 0 and
  with \<open>total_columns = 2\<close>. For any list of events of a day, every event of the result
  carries as \<open>total_columns\<close> the number of columns opened for the day, which is the
  number of different columns in use that day: one value for the whole day.
\<close>

theorem assign_columns_greedy:
  "(mset evs = {#e1, e2, e3#} \<and>
    e_start_minutes e1 = 720 \<and> e_end_minutes e1 = 780 \<and>
    e_start_minutes e2 = 750 \<and> e_end_minutes e2 = 840 \<and>
    e_start_minutes e3 = 810 \<and> e_end_minutes e3 = 900 \<longrightarrow>
    assign_columns evs =
      [e1\<lparr>e_column := 0, e_total_columns := 2\<rparr>,
       e2\<lparr>e_column := 1, e_total_columns := 2\<rparr>,
       e3\<lparr>e_column := 0, e_total_columns := 2\<rparr>]) \<and>
   (\<forall>e \<in> set (assign_columns day_events).
      e_total_columns e =
        length (snd (place_events
          (sort_key (\<lambda>e. (e_start_minutes e, e_end_minutes e)) day_events) [])) \<and>
      e_total_columns e = card (e_column ` set (assign_columns day_events)))"
proof (intro conjI impI ballI)
  assume a: "mset evs = {#e1, e2, e3#} \<and>
    e_start_minutes e1 = 720 \<and> e_end_minutes e1 = 780 \<and>
    e_start_minutes e2 = 750 \<and> e_end_minutes e2 = 840 \<and>
    e_start_minutes e3 = 810 \<and> e_end_minutes e3 = 900"
  let ?k = "\<lambda>e. (e_start_minutes e, e_end_minutes e)"
  from a have "?k e1 < ?k e2" "?k e2 < ?k e3" by (simp_all add: less_prod_def)
  with a have "sort_key ?k evs = [e1, e2, e3]" by (intro sort_three) simp_all
  with a show "assign_columns evs =
      [e1\<lparr>e_column := 0, e_total_columns := 2\<rparr>,
       e2\<lparr>e_column := 1, e_total_columns := 2\<rparr>,
       e3\<lparr>e_column := 0, e_total_columns := 2\<rparr>]"
    by (simp add: assign_columns_def)
next
  fix e assume "e \<in> set (assign_columns day_events)"
  then show "e_total_columns e =
        length (snd (place_events
          (sort_key (\<lambda>e. (e_start_minutes e, e_end_minutes e)) day_events) []))"
    by (rule assign_columns_total(1))
next
  fix e assume "e \<in> set (assign_columns day_events)"
  then show "e_total_columns e = card (e_column ` set (assign_columns day_events))"
    by (rule assign_columns_total(2))
qed

lemma two_clusters_assigned:
  "assign_columns two_clusters =
     [sample_event ''a'' ''A1'' ''Monday'' 540 600 ''9:00'' ''10:00'' ''#CC0000'' 0 2,
      sample_event ''b'' ''B1'' ''Monday'' 570 630 ''9:30'' ''10:30'' ''#3B82F6'' 1 2,
      sample_event ''c'' ''C1'' ''Monday'' 840 900 ''14:00'' ''15:00'' ''#10B981'' 0 2]"
  by code_simp

theorem assign_columns_greedy_witness:
  "map (\<lambda>e. (e_course_id e, e_column e, e_total_columns e)) (assign_columns noon_events)
     = [(''a'', 0, 2), (''b'', 1, 2), (''c'', 0, 2)] \<and>
   map (\<lambda>e. (e_course_id e, e_column e, e_total_columns e)) (assign_columns two_clusters)
     = [(''a'', 0, 2), (''b'', 1, 2), (''c'', 0, 2)] \<and>
   card (e_column ` set (assign_columns two_clusters)) = 2"
proof -
  let ?a = "sample_event ''a'' ''A1'' ''Monday'' 720 780 ''12:00'' ''13:00'' ''#CC0000'' 0 1"
  let ?b = "sample_event ''b'' ''B1'' ''Monday'' 750 840 ''12:30'' ''14:00'' ''#3B82F6'' 0 1"
  let ?c = "sample_event ''c'' ''C1'' ''Monday'' 810 900 ''13:30'' ''15:00'' ''#10B981'' 0 1"
  let ?e = "sample_event ''c'' ''C1'' ''Monday'' 840 900 ''14:00'' ''15:00'' ''#10B981'' 0 2"
  note inst = assign_columns_greedy[of noon_events ?a ?b ?c two_clusters]
  have "mset noon_events = {#?a, ?b, ?c#}" by (simp add: noon_events_def)
  moreover have "e_start_minutes ?a = 720 \<and> e_end_minutes ?a = 780 \<and>
    e_start_minutes ?b = 750 \<and> e_end_minutes ?b = 840 \<and>
    e_start_minutes ?c = 810 \<and> e_end_minutes ?c = 900" by (simp add: sample_event_def)
  ultimately have "assign_columns noon_events =
      [?a\<lparr>e_column := 0, e_total_columns := 2\<rparr>,
       ?b\<lparr>e_column := 1, e_total_columns := 2\<rparr>,
       ?c\<lparr>e_column := 0, e_total_columns := 2\<rparr>]" using inst by blast
  then have first: "map (\<lambda>e. (e_course_id e, e_column e, e_total_columns e)) (assign_columns noon_events)
     = [(''a'', 0, 2), (''b'', 1, 2), (''c'', 0, 2)]" by (simp add: sample_event_def)
  have "?e \<in> set (assign_columns two_clusters)" by (simp add: two_clusters_assigned)
  with inst have "e_total_columns ?e = card (e_column ` set (assign_columns two_clusters))" by blast
  then have third: "card (e_column ` set (assign_columns two_clusters)) = 2"
    by (simp add: sample_event_def)
  have second: "map (\<lambda>e. (e_course_id e, e_column e, e_total_columns e)) (assign_columns two_clusters)
     = [(''a'', 0, 2), (''b'', 1, 2), (''c'', 0, 2)]"
    by (simp add: two_clusters_assigned sample_event_def)
  from first second third show ?thesis by simp
qed

section \<open>One course per id in the schedule\<close>

lemma list_all_update:
  "list_all P al \<Longrightarrow> P (k, v) \<Longrightarrow> list_all P (AList.update k v al)"
  by (induction al) auto

lemma list_all_delete:
  "list_all P al \<Longrightarrow> list_all P (AList.delete k al)"
  by (induction al) auto

lemma keys_update_present:
  "k \<in> fst ` set al \<Longrightarrow> map fst (AList.update k v al) = map fst al"
  by (induction al) auto

lemma keys_update_absent:
  "k \<notin> fst ` set al \<Longrightarrow> map fst (AList.update k v al) = map fst al @ [k]"
  by (induction al) auto

lemma length_update_present:
  "k \<in> fst ` set al \<Longrightarrow> length (AList.update k v al) = length al"
  by (induction al) auto

lemma length_update_absent:
  "k \<notin> fst ` set al \<Longrightarrow> length (AList.update k v al) = Suc (length al)"
  by (induction al) auto

lemma ids_are_keys:
  "list_all (\<lambda>(k, c). c_id c = k) al \<Longrightarrow> map (c_id \<circ> snd) al = map fst al"
  by (induction al) auto

text \<open>
  Claim C10. The schedule holds at most one course per id: the keys of the dictionary are
  pairwise different and every entry is stored under its own id. The empty schedule has
  this property, and \<open>add_course\<close>, \<open>remove_course\<close> and \<open>clear\<close> keep it. Adding a
  course whose id is present replaces the entry where it stands and leaves the number of
  courses unchanged; adding one whose id is new makes the schedule one course longer.
\<close>

theorem schedule_one_course_per_id:
  "one_course_per_id empty_schedule \<and>
   (one_course_per_id sb \<longrightarrow>
      distinct (map (c_id \<circ> snd) (courses sb)) \<and>
      one_course_per_id (snd (remove_course sb i)) \<and>
      one_course_per_id (clear sb) \<and>
      (\<forall>ks sb'. add_course sb c = Inr (ks, sb') \<longrightarrow>
         one_course_per_id sb' \<and> get_course sb' (c_id c) = Some c \<and>
         (c_id c \<in> fst ` set (courses sb) \<longrightarrow>
            course_count sb' = course_count sb \<and>
            map fst (courses sb') = map fst (courses sb)) \<and>
         (c_id c \<notin> fst ` set (courses sb) \<longrightarrow>
            course_count sb' = course_count sb + 1)))"
proof (intro conjI impI allI)
  show "one_course_per_id empty_schedule"
    by (simp add: one_course_per_id_def empty_schedule_def)
next
  assume inv: "one_course_per_id sb"
  then show "distinct (map (c_id \<circ> snd) (courses sb))"
    by (simp add: one_course_per_id_def ids_are_keys)
  from inv show "one_course_per_id (snd (remove_course sb i))"
    by (simp add: one_course_per_id_def remove_course_def distinct_delete list_all_delete)
  show "one_course_per_id (clear sb)"
    by (simp add: one_course_per_id_def clear_def)
  fix ks sb'
  assume "add_course sb c = Inr (ks, sb')"
  then have sb': "sb' = sb\<lparr>courses := AList.update (c_id c) c (courses sb)\<rparr>"
    by (auto simp: add_course_def split: sum.splits)
  from inv show "one_course_per_id sb'"
    by (simp add: sb' one_course_per_id_def distinct_update list_all_update)
  show "get_course sb' (c_id c) = Some c"
    by (simp add: sb' get_course_def update_conv')
  { assume "c_id c \<in> fst ` set (courses sb)"
    then show "course_count sb' = course_count sb"
      and "map fst (courses sb') = map fst (courses sb)"
      by (simp_all add: sb' course_count_def length_update_present keys_update_present) }
  { assume "c_id c \<notin> fst ` set (courses sb)"
    then show "course_count sb' = course_count sb + 1"
      by (simp add: sb' course_count_def length_update_absent) }
qed

lemma add_replacement:
  "add_course back_to_back replacement_course =
     Inr ([], \<lparr>courses = [(''a'', replacement_course),
                 (''b'', sample_course ''b'' ''B1'' ''Lecture'' [sample_meeting ''M'' ''11:00'' ''12:00''])],
               color_index = 0\<rparr>)"
  by code_simp

theorem schedule_one_course_per_id_witness:
  "one_course_per_id back_to_back \<and>
   (\<exists>ks sb'. add_course back_to_back replacement_course = Inr (ks, sb') \<and>
      c_id replacement_course \<in> fst ` set (courses back_to_back) \<and>
      one_course_per_id sb' \<and> get_course sb' ''a'' = Some replacement_course \<and>
      course_count sb' = 2 \<and> course_count back_to_back = 2)"
proof -
  have inv: "one_course_per_id back_to_back"
    by (simp add: one_course_per_id_def back_to_back_def sample_course_def)
  have present: "c_id replacement_course \<in> fst ` set (courses back_to_back)"
    by (simp add: back_to_back_def replacement_course_def sample_course_def)
  have cnt: "course_count back_to_back = 2" by (simp add: course_count_def back_to_back_def)
  have cid: "c_id replacement_course = ''a''" by (simp add: replacement_course_def sample_course_def)
  from schedule_one_course_per_id[of back_to_back "''a''" replacement_course] inv add_replacement present cnt cid
  show ?thesis by auto
qed

section \<open>Conflicts are between different sections\<close>

lemma all_pairs_subset: "set (all_pairs xs) \<subseteq> set xs \<times> set xs"
  by (induction xs) auto

lemma all_pairs_distinct_sections:
  "distinct xs \<Longrightarrow> (a, b) \<in> set (all_pairs xs) \<Longrightarrow> a \<noteq> b \<and> (b, a) \<notin> set (all_pairs xs)"
proof (induction xs)
  case Nil
  then show ?case by simp
next
  case (Cons x xs)
  from all_pairs_subset[of xs] have sub: "\<And>p q. (p, q) \<in> set (all_pairs xs) \<Longrightarrow> p \<in> set xs \<and> q \<in> set xs"
    by auto
  from Cons.prems(2) have "(a = x \<and> b \<in> set xs) \<or> (a, b) \<in> set (all_pairs xs)" by auto
  then show ?case
  proof
    assume h: "a = x \<and> b \<in> set xs"
    with Cons.prems(1) have "a \<noteq> b" by auto
    moreover have "(b, a) \<notin> set (all_pairs (x # xs))"
      using h Cons.prems(1) sub[of b a] by auto
    ultimately show ?thesis by simp
  next
    assume h: "(a, b) \<in> set (all_pairs xs)"
    with Cons.IH Cons.prems(1) have ih: "a \<noteq> b \<and> (b, a) \<notin> set (all_pairs xs)" by simp
    from sub[OF h] Cons.prems(1) have "b \<noteq> x" by auto
    with ih show ?thesis by auto
  qed
qed

lemma distinct_sections_subset:
  assumes "distinct xs" and "set ps \<subseteq> set (all_pairs xs)"
  shows "distinct_sections ps"
  unfolding distinct_sections_def
proof (intro ballI, clarify)
  fix a b assume "(a, b) \<in> set ps"
  with assms(2) have "(a, b) \<in> set (all_pairs xs)" by auto
  from all_pairs_distinct_sections[OF assms(1) this] assms(2)
  show "a \<noteq> b \<and> (b, a) \<notin> set ps" by auto
qed

lemma subseq_distinct: "subseq xs ys \<Longrightarrow> distinct ys \<Longrightarrow> distinct xs"
proof (induction rule: list_emb.induct)
  case (list_emb_Nil ys)
  then show ?case by simp
next
  case (list_emb_Cons xs ys y)
  then show ?case by simp
next
  case (list_emb_Cons2 x y xs ys)
  then have "x \<notin> set xs" by (auto elim: list_emb_set)
  with list_emb_Cons2 show ?case by simp
qed

lemma subseq_subset: "subseq xs ys \<Longrightarrow> set xs \<subseteq> set ys"
  by (auto elim: list_emb_set)

subsection \<open>The course index\<close>

lemma first_conflict_ids:
  "first_conflict c1 c2 ms = Inr (Some k) \<Longrightarrow> conflict_ids k = (c_id c1, c_id c2)"
  by (induction c1 c2 ms rule: first_conflict.induct)
     (auto simp: conflict_ids_def split: option.splits if_splits sum.splits bool.splits)

lemma conflict_list_ids:
  "conflict_list c1 c2 = Inr ks \<Longrightarrow> subseq (map conflict_ids ks) [(c_id c1, c_id c2)]"
  by (auto simp: conflict_list_def check_conflict_def first_conflict_ids
           split: sum.splits option.splits)

lemma concat_results_Inr_Cons:
  "concat_results f (x # xs) = Inr r \<Longrightarrow>
     \<exists>ys zs. f x = Inr ys \<and> concat_results f xs = Inr zs \<and> r = ys @ zs"
  by (auto split: sum.splits)

lemma found_ids:
  "concat_results (conflict_list c1) rest = Inr found \<Longrightarrow>
   subseq (map conflict_ids found) (map (Pair (c_id c1)) (map c_id rest))"
proof (induction rest arbitrary: found)
  case Nil
  then show ?case by simp
next
  case (Cons c2 rest)
  from concat_results_Inr_Cons[OF Cons.prems] obtain ys zs
    where ys: "conflict_list c1 c2 = Inr ys" and zs: "concat_results (conflict_list c1) rest = Inr zs"
      and f: "found = ys @ zs" by blast
  from list_emb_append_mono[OF conflict_list_ids[OF ys] Cons.IH[OF zs]] f
  show ?case by simp
qed

lemma all_pairs_distinct: "distinct xs \<Longrightarrow> distinct (all_pairs xs)"
proof (induction xs)
  case Nil
  then show ?case by simp
next
  case (Cons x xs)
  from all_pairs_subset[of xs] Cons.prems
  have "set (map (Pair x) xs) \<inter> set (all_pairs xs) = {}" by auto
  moreover from Cons.prems have "distinct (map (Pair x) xs)"
    by (simp add: distinct_map inj_on_def)
  ultimately show ?case using Cons by simp
qed

lemma detect_conflicts_ids:
  "detect_conflicts cs = Inr ks \<Longrightarrow> subseq (map conflict_ids ks) (all_pairs (map c_id cs))"
proof (induction cs arbitrary: ks)
  case Nil
  then show ?case by simp
next
  case (Cons c1 rest)
  from Cons.prems obtain found later
    where f: "concat_results (conflict_list c1) rest = Inr found"
      and l: "detect_conflicts rest = Inr later" and k: "ks = found @ later"
    by (auto split: sum.splits)
  from list_emb_append_mono[OF found_ids[OF f] Cons.IH[OF l]] k
  show ?case by simp
qed

subsection \<open>The schedule engine\<close>

lemma concat_results_mem:
  "concat_results f xs = Inr r \<Longrightarrow> y \<in> set r \<Longrightarrow> \<exists>x \<in> set xs. \<exists>ys. f x = Inr ys \<and> y \<in> set ys"
proof (induction xs arbitrary: r)
  case Nil
  then show ?case by simp
next
  case (Cons x xs)
  from concat_results_Inr_Cons[OF Cons.prems(1)] obtain ys zs
    where "f x = Inr ys" "concat_results f xs = Inr zs" "r = ys @ zs" by blast
  with Cons.IH[of zs] Cons.prems(2) show ?case by auto
qed

lemma meeting_events_id:
  "meeting_events c color m = Inr es \<Longrightarrow> e \<in> set es \<Longrightarrow> e_course_id e = c_id c"
  by (auto simp: meeting_events_def Let_def split: if_splits sum.splits)

lemma course_to_events_id:
  assumes "course_to_events c color = Inr es" and "e \<in> set es"
  shows "e_course_id e = c_id c"
proof -
  from concat_results_mem[OF assms[unfolded course_to_events_def]]
  obtain m ys where "meeting_events c color m = Inr ys" "e \<in> set ys" by blast
  then show ?thesis by (rule meeting_events_id)
qed

lemma conflicts_between_ids:
  assumes "k \<in> set (conflicts_between es1 es2)"
    and "\<And>e. e \<in> set es1 \<Longrightarrow> e_course_id e = i1"
    and "\<And>e. e \<in> set es2 \<Longrightarrow> e_course_id e = i2"
  shows "event_ids k = (i1, i2)"
  using assms by (auto simp: conflicts_between_def event_ids_def mk_conflict_def)

lemma detect_conflicts_with_ids:
  assumes "detect_conflicts_with sb c = Inr ks" and "k \<in> set ks"
  shows "\<exists>existing \<in> snd ` set (courses sb). event_ids k = (c_id c, c_id existing)"
proof -
  from assms(1) obtain new_events where ne: "course_to_events c ''temp'' = Inr new_events"
    and cr: "concat_results
            (\<lambda>existing_course.
               case course_to_events existing_course ''temp'' of
                 Inl e \<Rightarrow> Inl e
               | Inr existing_events \<Rightarrow> Inr (conflicts_between new_events existing_events))
            (map snd (courses sb)) = Inr ks"
    by (auto simp: detect_conflicts_with_def split: sum.splits)
  from concat_results_mem[OF cr assms(2)] obtain existing ys
    where ex: "existing \<in> snd ` set (courses sb)"
      and ys: "(case course_to_events existing ''temp'' of
                 Inl e \<Rightarrow> Inl e
               | Inr existing_events \<Rightarrow> Inr (conflicts_between new_events existing_events)) = Inr ys"
      and k: "k \<in> set ys" by auto
  from ys obtain existing_events where ee: "course_to_events existing ''temp'' = Inr existing_events"
    and "ys = conflicts_between new_events existing_events" by (auto split: sum.splits)
  with k have "event_ids k = (c_id c, c_id existing)"
    by (auto intro!: conflicts_between_ids course_to_events_id[OF ne] course_to_events_id[OF ee])
  with ex show ?thesis by blast
qed

lemma all_conflicts_ids:
  "all_conflicts cs = Inr ks \<Longrightarrow> k \<in> set ks \<Longrightarrow> event_ids k \<in> set (all_pairs (map c_id cs))"
proof (induction cs arbitrary: ks)
  case Nil
  then show ?case by simp
next
  case (Cons c1 rest)
  from Cons.prems(1) obtain events1 found later
    where e1: "course_to_events c1 ''temp'' = Inr events1"
      and f: "concat_results
                  (\<lambda>course2.
                     case course_to_events course2 ''temp'' of
                       Inl e \<Rightarrow> Inl e
                     | Inr events2 \<Rightarrow> Inr (conflicts_between events1 events2))
                  rest = Inr found"
      and l: "all_conflicts rest = Inr later" and ks: "ks = found @ later"
    by (auto split: sum.splits)
  from Cons.prems(2) ks have "k \<in> set found \<or> k \<in> set later" by simp
  then show ?case
  proof
    assume "k \<in> set found"
    from concat_results_mem[OF f this] obtain c2 ys where c2: "c2 \<in> set rest"
      and ys: "(case course_to_events c2 ''temp'' of
                       Inl e \<Rightarrow> Inl e
                     | Inr events2 \<Rightarrow> Inr (conflicts_between events1 events2)) = Inr ys"
      and k: "k \<in> set ys" by auto
    from ys obtain events2 where e2: "course_to_events c2 ''temp'' = Inr events2"
      and "ys = conflicts_between events1 events2" by (auto split: sum.splits)
    with k have "event_ids k = (c_id c1, c_id c2)"
      by (auto intro!: conflicts_between_ids course_to_events_id[OF e1] course_to_events_id[OF e2])
    with c2 show ?thesis by auto
  next
    assume "k \<in> set later"
    from Cons.IH[OF l this] show ?thesis by simp
  qed
qed

lemma invariant_ids_are_keys:
  assumes "one_course_per_id sb" and "x \<in> snd ` set (courses sb)"
  shows "c_id x \<in> fst ` set (courses sb)"
proof -
  from assms(2) obtain k where kx: "(k, x) \<in> set (courses sb)" by auto
  from assms(1) have "list_all (\<lambda>(k, c). c_id c = k) (courses sb)"
    by (simp add: one_course_per_id_def)
  with kx have "c_id x = k" by (auto simp: list_all_iff)
  with kx show ?thesis by force
qed

lemma add_course_ids:
  assumes "one_course_per_id sb" and "add_course sb c = Inr (ks, sb')" and "k \<in> set ks"
  shows "fst (event_ids k) = c_id c \<and> snd (event_ids k) \<in> fst ` set (courses sb)"
proof -
  from assms(2) have d: "detect_conflicts_with sb c = Inr ks"
    by (simp add: add_course_def split: sum.splits)
  from detect_conflicts_with_ids[OF d assms(3)] obtain existing
    where ex: "existing \<in> snd ` set (courses sb)" and ids: "event_ids k = (c_id c, c_id existing)"
    by blast
  from invariant_ids_are_keys[OF assms(1) ex] ids show ?thesis by simp
qed

lemma add_course_distinct_sections:
  assumes "one_course_per_id sb" and "c_id c \<notin> fst ` set (courses sb)"
    and "add_course sb c = Inr (ks, sb')"
  shows "distinct_sections (map event_ids ks)"
  unfolding distinct_sections_def
proof (intro ballI, clarify)
  fix p q assume "(p, q) \<in> set (map event_ids ks)"
  then obtain k where k: "k \<in> set ks" "event_ids k = (p, q)" by auto
  from add_course_ids[OF assms(1,3) k(1)] k(2)
  have p: "p = c_id c" and q: "q \<in> fst ` set (courses sb)" by simp_all
  have "(q, p) \<notin> set (map event_ids ks)"
  proof
    assume "(q, p) \<in> set (map event_ids ks)"
    then obtain k' where k': "k' \<in> set ks" "event_ids k' = (q, p)" by auto
    from add_course_ids[OF assms(1,3) k'(1)] k'(2) have "q = c_id c" by simp
    with q assms(2) show False by simp
  qed
  moreover from p q assms(2) have "p \<noteq> q" by blast
  ultimately show "p \<noteq> q \<and> (q, p) \<notin> set (map event_ids ks)" by simp
qed

lemma get_all_conflicts_distinct_sections:
  assumes "one_course_per_id sb" and "get_all_conflicts sb = Inr ks"
  shows "distinct_sections (map event_ids ks)"
proof -
  from assms(1) have d: "distinct (map c_id (map snd (courses sb)))"
    by (simp add: one_course_per_id_def ids_are_keys)
  have "set (map event_ids ks) \<subseteq> set (all_pairs (map c_id (map snd (courses sb))))"
  proof
    fix p assume "p \<in> set (map event_ids ks)"
    then obtain k where "k \<in> set ks" "p = event_ids k" by auto
    with all_conflicts_ids[OF assms(2)[unfolded get_all_conflicts_def]]
    show "p \<in> set (all_pairs (map c_id (map snd (courses sb))))" by simp
  qed
  with d show ?thesis by (rule distinct_sections_subset)
qed

lemma detect_conflicts_distinct_sections:
  assumes "distinct (map c_id cs)" and "detect_conflicts cs = Inr xs"
  shows "distinct_sections (map conflict_ids xs)" and "distinct (map conflict_ids xs)"
proof -
  from assms(2) have sub: "subseq (map conflict_ids xs) (all_pairs (map c_id cs))"
    by (rule detect_conflicts_ids)
  from distinct_sections_subset[OF assms(1) subseq_subset[OF sub]]
  show "distinct_sections (map conflict_ids xs)" .
  from subseq_distinct[OF sub all_pairs_distinct[OF assms(1)]]
  show "distinct (map conflict_ids xs)" .
qed

text \<open>
  Claim C2, as amended. When the sections involved have pairwise different ids, every
  reported conflict is between two different sections and no pair of sections is
  reported in both orders: for \<open>detect_conflicts\<close> on a list without a repeated id
  (which moreover reports each pair at most once), for \<open>add_course\<close> of a section whose
  id is not yet in the schedule (every conflict then has the new section first), and for
  \<open>get_all_conflicts\<close> on a schedule with one course per id.
\<close>

theorem conflicts_between_distinct_sections:
  "(distinct (map c_id cs) \<and> detect_conflicts cs = Inr xs \<longrightarrow>
      distinct_sections (map conflict_ids xs) \<and> distinct (map conflict_ids xs)) \<and>
   (one_course_per_id sb \<and> c_id c \<notin> fst ` set (courses sb) \<and>
    add_course sb c = Inr (ks, sb') \<longrightarrow>
      distinct_sections (map event_ids ks) \<and>
      (\<forall>k \<in> set ks. fst (event_ids k) = c_id c \<and> snd (event_ids k) \<in> fst ` set (courses sb))) \<and>
   (one_course_per_id sb2 \<and> get_all_conflicts sb2 = Inr ks2 \<longrightarrow>
      distinct_sections (map event_ids ks2))"
proof (intro conjI impI ballI)
  assume a: "distinct (map c_id cs) \<and> detect_conflicts cs = Inr xs"
  then show "distinct_sections (map conflict_ids xs)"
    by (intro detect_conflicts_distinct_sections(1)[of cs]) simp_all
  from a show "distinct (map conflict_ids xs)"
    by (intro detect_conflicts_distinct_sections(2)[of cs]) simp_all
next
  assume a: "one_course_per_id sb \<and> c_id c \<notin> fst ` set (courses sb) \<and>
    add_course sb c = Inr (ks, sb')"
  then show "distinct_sections (map event_ids ks)"
    by (intro add_course_distinct_sections[of sb c ks sb']) simp_all
  fix k assume "k \<in> set ks"
  with a show "fst (event_ids k) = c_id c"
    using add_course_ids[of sb c ks sb' k] by simp
  from a \<open>k \<in> set ks\<close> show "snd (event_ids k) \<in> fst ` set (courses sb)"
    using add_course_ids[of sb c ks sb' k] by simp
next
  assume a: "one_course_per_id sb2 \<and> get_all_conflicts sb2 = Inr ks2"
  then show "distinct_sections (map event_ids ks2)"
    by (intro get_all_conflicts_distinct_sections[of sb2]) simp_all
qed

text \<open>
  The claim as stated fails: adding a section that is already in the schedule reports the
  section against its own earlier entry, and a list that holds a section twice makes
  \<open>detect_conflicts\<close> report the section against itself.
\<close>

theorem self_conflict_counterexample:
  "map_sum id (map event_ids \<circ> fst)
     (add_course single_course
        (sample_course ''a'' ''A1'' ''Lecture'' [sample_meeting ''M'' ''10:00'' ''11:00'']))
     = Inr [(''a'', ''a'')] \<and>
   map_sum id (map conflict_ids)
     (detect_conflicts
        [sample_course ''a'' ''A1'' ''Lecture'' [sample_meeting ''M'' ''10:00'' ''11:00''],
         sample_course ''a'' ''A1'' ''Lecture'' [sample_meeting ''M'' ''10:00'' ''11:00'']])
     = Inr [(''a'', ''a'')]"
  by code_simp

lemma clashing_pair_conflicts:
  "map_sum id (map event_ids) (get_all_conflicts clashing_pair) = Inr [(''a'', ''b'')]"
  "map_sum id (map conflict_ids) (detect_conflicts (map snd (courses clashing_pair))) = Inr [(''a'', ''b'')]"
  "map_sum id (map event_ids \<circ> fst)
     (add_course single_course
        (sample_course ''b'' ''B1'' ''Lecture'' [sample_meeting ''M'' ''10:30'' ''11:30'']))
     = Inr [(''b'', ''a'')]"
  by code_simp+

theorem conflicts_between_distinct_sections_witness:
  "distinct (map c_id (map snd (courses clashing_pair))) \<and>
   one_course_per_id single_course \<and> one_course_per_id clashing_pair \<and>
   ''b'' \<notin> fst ` set (courses single_course) \<and>
   (\<exists>xs ks sb' ks2.
      detect_conflicts (map snd (courses clashing_pair)) = Inr xs \<and>
      add_course single_course
        (sample_course ''b'' ''B1'' ''Lecture'' [sample_meeting ''M'' ''10:30'' ''11:30'']) = Inr (ks, sb') \<and>
      get_all_conflicts clashing_pair = Inr ks2 \<and>
      map conflict_ids xs = [(''a'', ''b'')] \<and> map event_ids ks = [(''b'', ''a'')] \<and>
      map event_ids ks2 = [(''a'', ''b'')] \<and>
      distinct_sections (map conflict_ids xs) \<and> distinct (map conflict_ids xs) \<and>
      distinct_sections (map event_ids ks) \<and> distinct_sections (map event_ids ks2))"
proof -
  let ?b = "sample_course ''b'' ''B1'' ''Lecture'' [sample_meeting ''M'' ''10:30'' ''11:30'']"
  have h1: "distinct (map c_id (map snd (courses clashing_pair)))"
    by (simp add: clashing_pair_def sample_course_def)
  have h2: "one_course_per_id single_course"
    by (simp add: one_course_per_id_def single_course_def sample_course_def)
  have h3: "one_course_per_id clashing_pair"
    by (simp add: one_course_per_id_def clashing_pair_def sample_course_def)
  have h4: "''b'' \<notin> fst ` set (courses single_course)" by (simp add: single_course_def)
  have h4': "c_id ?b \<notin> fst ` set (courses single_course)"
    by (simp add: single_course_def sample_course_def)
  obtain xs where xs: "detect_conflicts (map snd (courses clashing_pair)) = Inr xs"
    and xs': "map conflict_ids xs = [(''a'', ''b'')]"
    using clashing_pair_conflicts(2)
    by (cases "detect_conflicts (map snd (courses clashing_pair))") simp_all
  obtain ks sb' where ks: "add_course single_course ?b = Inr (ks, sb')"
    and ks': "map event_ids ks = [(''b'', ''a'')]"
    using clashing_pair_conflicts(3)
    by (cases "add_course single_course ?b") auto
  obtain ks2 where ks2: "get_all_conflicts clashing_pair = Inr ks2"
    and ks2': "map event_ids ks2 = [(''a'', ''b'')]"
    using clashing_pair_conflicts(1)
    by (cases "get_all_conflicts clashing_pair") simp_all
  from conflicts_between_distinct_sections[of "map snd (courses clashing_pair)" xs
      single_course ?b ks sb' clashing_pair ks2] h1 h2 h3 h4' xs ks ks2
  have r: "distinct_sections (map conflict_ids xs)" "distinct (map conflict_ids xs)"
      "distinct_sections (map event_ids ks)" "distinct_sections (map event_ids ks2)"
    by blast+
  show ?thesis
    by (intro exI conjI; fact)
qed

section \<open>Conflicts need a common day and overlapping times\<close>

lemma parsed_samples:
  "parse_days_to_full_names ''MWF'' = [''Monday'', ''Wednesday'', ''Friday'']"
  "parse_days_to_full_names ''TuTh'' = [''Tuesday'', ''Thursday'']"
  "parse_days_to_set ''MWF'' = [''M'', ''W'', ''F'']"
  "parse_days_to_set ''TuTh'' = [''TU'', ''TH'']"
  "py_upper ''MWF'' = ''MWF''"
  "parse_time_to_minutes ''10:00'' = Inr 600"
  "parse_time_to_minutes ''11:00'' = Inr 660"
  "parse_time_to_minutes ''10:30'' = Inr 630"
  "parse_time_to_minutes ''11:30'' = Inr 690"
  "py_join '', '' (sort [''M'', ''W'', ''F'']) = ''F, M, W''"
  by code_simp+

lemma mwf_events:
  assumes "m_days m = ''MWF''" "m_start_time m = s" "m_end_time m = e"
    "parse_time_to_minutes s = Inr a" "parse_time_to_minutes e = Inr b" "a \<noteq> 0" "s \<noteq> []" "e \<noteq> []"
    "c_schedule c = [m]"
  shows "\<exists>es. course_to_events c color = Inr es \<and>
     map (\<lambda>e. (e_course_id e, e_day e, e_start_minutes e, e_end_minutes e)) es =
       [(c_id c, ''Monday'', a, b), (c_id c, ''Wednesday'', a, b), (c_id c, ''Friday'', a, b)]"
  using assms by (simp add: course_to_events_def meeting_events_def parsed_samples)

lemma conflicts_between_mwf:
  assumes "map (\<lambda>e. (e_course_id e, e_day e, e_start_minutes e, e_end_minutes e)) es1 =
       [(i1, ''Monday'', 600, 660), (i1, ''Wednesday'', 600, 660), (i1, ''Friday'', 600, 660)]"
    and "map (\<lambda>e. (e_course_id e, e_day e, e_start_minutes e, e_end_minutes e)) es2 =
       [(i2, ''Monday'', 630, 690), (i2, ''Wednesday'', 630, 690), (i2, ''Friday'', 630, 690)]"
  shows "map conflict_summary (conflicts_between es1 es2) =
       [((i1, i2), ''Monday'', 30), ((i1, i2), ''Wednesday'', 30), ((i1, i2), ''Friday'', 30)]"
    and "map conflict_summary (conflicts_between es2 es1) =
       [((i2, i1), ''Monday'', 30), ((i2, i1), ''Wednesday'', 30), ((i2, i1), ''Friday'', 30)]"
proof -
  from assms(1) obtain x1 x2 x3 where es1: "es1 = [x1, x2, x3]"
    and x: "e_course_id x1 = i1" "e_day x1 = ''Monday''" "e_start_minutes x1 = 600" "e_end_minutes x1 = 660"
      "e_course_id x2 = i1" "e_day x2 = ''Wednesday''" "e_start_minutes x2 = 600" "e_end_minutes x2 = 660"
      "e_course_id x3 = i1" "e_day x3 = ''Friday''" "e_start_minutes x3 = 600" "e_end_minutes x3 = 660"
    by (clarsimp simp: map_eq_Cons_conv)
  from assms(2) obtain y1 y2 y3 where es2: "es2 = [y1, y2, y3]"
    and y: "e_course_id y1 = i2" "e_day y1 = ''Monday''" "e_start_minutes y1 = 630" "e_end_minutes y1 = 690"
      "e_course_id y2 = i2" "e_day y2 = ''Wednesday''" "e_start_minutes y2 = 630" "e_end_minutes y2 = 690"
      "e_course_id y3 = i2" "e_day y3 = ''Friday''" "e_start_minutes y3 = 630" "e_end_minutes y3 = 690"
    by (clarsimp simp: map_eq_Cons_conv)
  show "map conflict_summary (conflicts_between es1 es2) =
       [((i1, i2), ''Monday'', 30), ((i1, i2), ''Wednesday'', 30), ((i1, i2), ''Friday'', 30)]"
    by (simp add: es1 es2 x y conflicts_between_def overlaps_def mk_conflict_def
          conflict_summary_def event_ids_def overlap_duration_def)
  show "map conflict_summary (conflicts_between es2 es1) =
       [((i2, i1), ''Monday'', 30), ((i2, i1), ''Wednesday'', 30), ((i2, i1), ''Friday'', 30)]"
    by (simp add: es1 es2 x y conflicts_between_def overlaps_def mk_conflict_def
          conflict_summary_def event_ids_def overlap_duration_def)
qed


subsection \<open>Conflicts need a common day\<close>

lemma meeting_events_day:
  "meeting_events c color m = Inr es \<Longrightarrow> e \<in> set es \<Longrightarrow>
   e_day e \<in> set (parse_days_to_full_names (m_days m))"
  by (auto simp: meeting_events_def Let_def split: if_splits sum.splits)

lemma course_to_events_day:
  assumes "course_to_events c color = Inr es" and "e \<in> set es"
  shows "e_day e \<in> course_day_names c"
proof -
  from concat_results_mem[OF assms[unfolded course_to_events_def]]
  obtain m ys where "m \<in> set (c_schedule c)" "meeting_events c color m = Inr ys" "e \<in> set ys"
    by blast
  with meeting_events_day[of c color m ys e] show ?thesis
    by (auto simp: course_day_names_def)
qed

lemma conflicts_between_disjoint:
  assumes "\<And>e. e \<in> set es1 \<Longrightarrow> e_day e \<in> A" and "\<And>e. e \<in> set es2 \<Longrightarrow> e_day e \<in> B"
    and "A \<inter> B = {}"
  shows "conflicts_between es1 es2 = []"
proof -
  have "\<not> overlaps a b" if "a \<in> set es1" "b \<in> set es2" for a b
    using assms(1)[OF that(1)] assms(2)[OF that(2)] assms(3) by (auto simp: overlaps_def)
  then show ?thesis
    by (induction es1) (auto simp: conflicts_between_def filter_empty_conv)
qed

lemma events_disjoint:
  assumes "course_day_names c1 \<inter> course_day_names c2 = {}"
    and "course_to_events c1 col1 = Inr es1" and "course_to_events c2 col2 = Inr es2"
  shows "conflicts_between es1 es2 = []"
  by (rule conflicts_between_disjoint[OF course_to_events_day[OF assms(2)]
        course_to_events_day[OF assms(3)] assms(1)])

lemma all_conflicts_two_disjoint:
  assumes "course_day_names c1 \<inter> course_day_names c2 = {}"
    and "all_conflicts [c1, c2] = Inr ks"
  shows "ks = []"
proof -
  from assms(2) obtain es1 es2 where e1: "course_to_events c1 ''temp'' = Inr es1"
    and e2: "course_to_events c2 ''temp'' = Inr es2"
    and ks: "ks = conflicts_between es1 es2"
    by (auto split: sum.splits)
  from events_disjoint[OF assms(1) e1 e2] ks show ?thesis by simp
qed

lemma add_course_disjoint:
  assumes "course_day_names c1 \<inter> course_day_names c2 = {}"
    and "courses sb = [(i1, c1)]" and "add_course sb c2 = Inr (ks, sb')"
  shows "ks = []"
proof -
  from assms(2,3) obtain es1 es2 where e1: "course_to_events c1 ''temp'' = Inr es1"
    and e2: "course_to_events c2 ''temp'' = Inr es2"
    and ks: "ks = conflicts_between es2 es1"
    by (auto simp: add_course_def detect_conflicts_with_def split: sum.splits)
  from assms(1) have "course_day_names c2 \<inter> course_day_names c1 = {}" by auto
  from events_disjoint[OF this e2 e1] ks show ?thesis by simp
qed

lemma first_conflict_disjoint:
  assumes "\<And>m1 m2. (m1, m2) \<in> set ms \<Longrightarrow>
     set (parse_days_to_set (m_days m1)) \<inter> set (parse_days_to_set (m_days m2)) = {}"
  shows "first_conflict c1 c2 ms = Inr None"
  using assms
proof (induction c1 c2 ms rule: first_conflict.induct)
  case (1 c1 c2)
  then show ?case by simp
next
  case (2 c1 c2 m1 m2 rest)
  from 2(4)[of m1 m2]
  have "filter (\<lambda>d. d \<in> set (parse_days_to_set (m_days m2))) (parse_days_to_set (m_days m1)) = []"
    by (auto simp: filter_empty_conv)
  then have none: "days_overlap (m_days m1) (m_days m2) = None"
    by (simp add: days_overlap_def)
  have "first_conflict c1 c2 rest = Inr None"
    by (rule 2(1)[OF none]) (use 2(4) in auto)
  with none show ?case by simp
qed

lemma check_conflict_disjoint:
  assumes "course_day_codes c1 \<inter> course_day_codes c2 = {}"
  shows "check_conflict c1 c2 = Inr None"
  unfolding check_conflict_def
proof (rule first_conflict_disjoint)
  fix m1 m2
  assume "(m1, m2) \<in> set (concat (map (\<lambda>m1. map (Pair m1) (c_schedule c2)) (c_schedule c1)))"
  then have "m1 \<in> set (c_schedule c1)" "m2 \<in> set (c_schedule c2)" by auto
  with assms show "set (parse_days_to_set (m_days m1)) \<inter> set (parse_days_to_set (m_days m2)) = {}"
    by (fastforce simp: course_day_codes_def)
qed

lemma mwf_all_conflicts:
  assumes "c_schedule c1 = [m1]" "m_days m1 = ''MWF''" "m_start_time m1 = ''10:00''"
    "m_end_time m1 = ''11:00''"
    and "c_schedule c2 = [m2]" "m_days m2 = ''MWF''" "m_start_time m2 = ''10:30''"
    "m_end_time m2 = ''11:30''"
  shows "\<exists>es1 es2. course_to_events c1 ''temp'' = Inr es1 \<and> course_to_events c2 ''temp'' = Inr es2 \<and>
     map conflict_summary (conflicts_between es1 es2) =
       [((c_id c1, c_id c2), ''Monday'', 30), ((c_id c1, c_id c2), ''Wednesday'', 30),
        ((c_id c1, c_id c2), ''Friday'', 30)] \<and>
     map conflict_summary (conflicts_between es2 es1) =
       [((c_id c2, c_id c1), ''Monday'', 30), ((c_id c2, c_id c1), ''Wednesday'', 30),
        ((c_id c2, c_id c1), ''Friday'', 30)]"
proof -
  from mwf_events[OF assms(2) assms(3) assms(4) parsed_samples(6) parsed_samples(7) _ _ _ assms(1),
      of "''temp''"]
  obtain es1 where e1: "course_to_events c1 ''temp'' = Inr es1"
    and m1: "map (\<lambda>e. (e_course_id e, e_day e, e_start_minutes e, e_end_minutes e)) es1 =
       [(c_id c1, ''Monday'', 600, 660), (c_id c1, ''Wednesday'', 600, 660),
        (c_id c1, ''Friday'', 600, 660)]" by auto
  from mwf_events[OF assms(6) assms(7) assms(8) parsed_samples(8) parsed_samples(9) _ _ _ assms(5),
      of "''temp''"]
  obtain es2 where e2: "course_to_events c2 ''temp'' = Inr es2"
    and m2: "map (\<lambda>e. (e_course_id e, e_day e, e_start_minutes e, e_end_minutes e)) es2 =
       [(c_id c2, ''Monday'', 630, 690), (c_id c2, ''Wednesday'', 630, 690),
        (c_id c2, ''Friday'', 630, 690)]" by auto
  show ?thesis
    by (intro exI[of _ es1] exI[of _ es2] conjI e1 e2 conflicts_between_mwf[OF m1 m2])
qed

lemma mwf_check_conflict:
  assumes "c_schedule c1 = [m1]" "m_days m1 = ''MWF''" "m_start_time m1 = ''10:00''"
    "m_end_time m1 = ''11:00''"
    and "c_schedule c2 = [m2]" "m_days m2 = ''MWF''" "m_start_time m2 = ''10:30''"
    "m_end_time m2 = ''11:30''"
  shows "check_conflict c1 c2 =
     Inr (Some \<lparr>x_course1_id = c_id c1, x_course2_id = c_id c2,
                x_course1_code = c_code c1, x_course2_code = c_code c2,
                x_overlap_day = ''F, M, W'', x_overlap_time = ''10:00-11:00''\<rparr>)"
  using assms
  by (simp add: check_conflict_def days_overlap_def times_overlap_def parsed_samples)

lemma mwf_tuth_day_names:
  assumes "(\<forall>m \<in> set (c_schedule d5). m_days m = ''MWF'') \<and>
    (\<forall>m \<in> set (c_schedule d6). m_days m = ''TuTh'')"
  shows "course_day_names d5 \<inter> course_day_names d6 = {}"
proof -
  have "course_day_names d5 \<subseteq> {''Monday'', ''Wednesday'', ''Friday''}"
    using assms by (auto simp: course_day_names_def parsed_samples)
  moreover have "course_day_names d6 \<subseteq> {''Tuesday'', ''Thursday''}"
    using assms by (auto simp: course_day_names_def parsed_samples)
  moreover have "{''Monday'', ''Wednesday'', ''Friday''} \<inter> {''Tuesday'', ''Thursday''}
      = ({} :: string set)" by simp
  ultimately show ?thesis by blast
qed

lemma mwf_tuth_day_codes:
  assumes "(\<forall>m \<in> set (c_schedule d5). m_days m = ''MWF'') \<and>
    (\<forall>m \<in> set (c_schedule d6). m_days m = ''TuTh'')"
  shows "course_day_codes d5 \<inter> course_day_codes d6 = {}"
proof -
  have "course_day_codes d5 \<subseteq> {''M'', ''W'', ''F''}"
    using assms by (auto simp: course_day_codes_def parsed_samples)
  moreover have "course_day_codes d6 \<subseteq> {''TU'', ''TH''}"
    using assms by (auto simp: course_day_codes_def parsed_samples)
  moreover have "{''M'', ''W'', ''F''} \<inter> {''TU'', ''TH''} = ({} :: string set)" by simp
  ultimately show ?thesis by blast
qed

text \<open>
  Claim C3, as amended. Two sections whose only meetings are MWF 10:00-11:00 and MWF
  10:30-11:30 conflict on Monday, on Wednesday and on Friday, each time with an overlap
  of 30 minutes: this is what \<open>get_all_conflicts\<close> reports for a schedule of the two, and
  \<open>add_course\<close> when the second is added to a schedule of the first. The course index
  (\<open>detect_conflicts\<close>, through \<open>_check_conflict\<close>) reports the pair once: its record
  names the days F, M, W in one string and, as overlap time, the meeting time
  10:00-11:00 of the first section; it holds no length of the overlap. Two sections
  whose meeting day sets are disjoint are never reported, whatever their times: the
  schedule engine reports no conflict whenever it returns, and the course index returns
  no conflict without reading the times. The day sets of a section that only meets MWF
  and of one that only meets TuTh are disjoint, for the day names of the schedule engine
  and for the day codes of the course index.
\<close>

theorem day_overlap_decides_conflicts:
  "(c_schedule c1 = [m1] \<and> m_days m1 = ''MWF'' \<and> m_start_time m1 = ''10:00'' \<and>
    m_end_time m1 = ''11:00'' \<and>
    c_schedule c2 = [m2] \<and> m_days m2 = ''MWF'' \<and> m_start_time m2 = ''10:30'' \<and>
    m_end_time m2 = ''11:30'' \<and>
    courses sb2 = [(i1, c1), (i2, c2)] \<and> courses sb1 = [(i1, c1)] \<longrightarrow>
      (\<exists>ks. get_all_conflicts sb2 = Inr ks \<and>
         map conflict_summary ks =
           [((c_id c1, c_id c2), ''Monday'', 30), ((c_id c1, c_id c2), ''Wednesday'', 30),
            ((c_id c1, c_id c2), ''Friday'', 30)]) \<and>
      (\<exists>ks sb'. add_course sb1 c2 = Inr (ks, sb') \<and>
         map conflict_summary ks =
           [((c_id c2, c_id c1), ''Monday'', 30), ((c_id c2, c_id c1), ''Wednesday'', 30),
            ((c_id c2, c_id c1), ''Friday'', 30)]) \<and>
      detect_conflicts [c1, c2] =
        Inr [\<lparr>x_course1_id = c_id c1, x_course2_id = c_id c2,
              x_course1_code = c_code c1, x_course2_code = c_code c2,
              x_overlap_day = ''F, M, W'', x_overlap_time = ''10:00-11:00''\<rparr>]) \<and>
   (course_day_names d1 \<inter> course_day_names d2 = {} \<and>
    courses tb2 = [(j1, d1), (j2, d2)] \<and> courses tb1 = [(j1, d1)] \<longrightarrow>
      (\<forall>ks. get_all_conflicts tb2 = Inr ks \<longrightarrow> ks = []) \<and>
      (\<forall>ks tb'. add_course tb1 d2 = Inr (ks, tb') \<longrightarrow> ks = [])) \<and>
   (course_day_codes d3 \<inter> course_day_codes d4 = {} \<longrightarrow>
      check_conflict d3 d4 = Inr None \<and> detect_conflicts [d3, d4] = Inr []) \<and>
   ((\<forall>m \<in> set (c_schedule d5). m_days m = ''MWF'') \<and>
    (\<forall>m \<in> set (c_schedule d6). m_days m = ''TuTh'') \<longrightarrow>
      course_day_names d5 \<inter> course_day_names d6 = {} \<and>
      course_day_codes d5 \<inter> course_day_codes d6 = {})"
proof (intro conjI impI allI)
  assume a: "c_schedule c1 = [m1] \<and> m_days m1 = ''MWF'' \<and> m_start_time m1 = ''10:00'' \<and>
    m_end_time m1 = ''11:00'' \<and>
    c_schedule c2 = [m2] \<and> m_days m2 = ''MWF'' \<and> m_start_time m2 = ''10:30'' \<and>
    m_end_time m2 = ''11:30'' \<and>
    courses sb2 = [(i1, c1), (i2, c2)] \<and> courses sb1 = [(i1, c1)]"
  then have h: "c_schedule c1 = [m1]" "m_days m1 = ''MWF''" "m_start_time m1 = ''10:00''"
    "m_end_time m1 = ''11:00''" "c_schedule c2 = [m2]" "m_days m2 = ''MWF''"
    "m_start_time m2 = ''10:30''" "m_end_time m2 = ''11:30''" by simp_all
  from mwf_all_conflicts[OF h]
  obtain es1 es2 where e1: "course_to_events c1 ''temp'' = Inr es1"
    and e2: "course_to_events c2 ''temp'' = Inr es2"
    and k12: "map conflict_summary (conflicts_between es1 es2) =
       [((c_id c1, c_id c2), ''Monday'', 30), ((c_id c1, c_id c2), ''Wednesday'', 30),
        ((c_id c1, c_id c2), ''Friday'', 30)]"
    and k21: "map conflict_summary (conflicts_between es2 es1) =
       [((c_id c2, c_id c1), ''Monday'', 30), ((c_id c2, c_id c1), ''Wednesday'', 30),
        ((c_id c2, c_id c1), ''Friday'', 30)]"
    by (elim exE conjE)
  from a e1 e2 have "get_all_conflicts sb2 = Inr (conflicts_between es1 es2)"
    by (simp add: get_all_conflicts_def)
  with k12 show "\<exists>ks. get_all_conflicts sb2 = Inr ks \<and>
         map conflict_summary ks =
           [((c_id c1, c_id c2), ''Monday'', 30), ((c_id c1, c_id c2), ''Wednesday'', 30),
            ((c_id c1, c_id c2), ''Friday'', 30)]" by simp
  from a e1 e2 have "add_course sb1 c2 =
      Inr (conflicts_between es2 es1, sb1\<lparr>courses := AList.update (c_id c2) c2 (courses sb1)\<rparr>)"
    by (simp add: add_course_def detect_conflicts_with_def)
  with k21 show "\<exists>ks sb'. add_course sb1 c2 = Inr (ks, sb') \<and>
         map conflict_summary ks =
           [((c_id c2, c_id c1), ''Monday'', 30), ((c_id c2, c_id c1), ''Wednesday'', 30),
            ((c_id c2, c_id c1), ''Friday'', 30)]" by simp
  have "check_conflict c1 c2 =
     Inr (Some \<lparr>x_course1_id = c_id c1, x_course2_id = c_id c2,
                x_course1_code = c_code c1, x_course2_code = c_code c2,
                x_overlap_day = ''F, M, W'', x_overlap_time = ''10:00-11:00''\<rparr>)"
    by (rule mwf_check_conflict[OF h])
  then show "detect_conflicts [c1, c2] =
        Inr [\<lparr>x_course1_id = c_id c1, x_course2_id = c_id c2,
              x_course1_code = c_code c1, x_course2_code = c_code c2,
              x_overlap_day = ''F, M, W'', x_overlap_time = ''10:00-11:00''\<rparr>]"
    by (simp add: conflict_list_def)
next
  fix ks
  assume a: "course_day_names d1 \<inter> course_day_names d2 = {} \<and>
    courses tb2 = [(j1, d1), (j2, d2)] \<and> courses tb1 = [(j1, d1)]"
    and g: "get_all_conflicts tb2 = Inr ks"
  from a g have "all_conflicts [d1, d2] = Inr ks" by (simp add: get_all_conflicts_def)
  with a show "ks = []" by (intro all_conflicts_two_disjoint[of d1 d2]) simp_all
next
  fix ks tb'
  assume a: "course_day_names d1 \<inter> course_day_names d2 = {} \<and>
    courses tb2 = [(j1, d1), (j2, d2)] \<and> courses tb1 = [(j1, d1)]"
    and g: "add_course tb1 d2 = Inr (ks, tb')"
  then show "ks = []" by (intro add_course_disjoint[of d1 d2 tb1 j1 ks tb']) simp_all
next
  assume a: "course_day_codes d3 \<inter> course_day_codes d4 = {}"
  then show c: "check_conflict d3 d4 = Inr None" by (rule check_conflict_disjoint)
  then show "detect_conflicts [d3, d4] = Inr []" by (simp add: conflict_list_def)
next
  assume a: "(\<forall>m \<in> set (c_schedule d5). m_days m = ''MWF'') \<and>
    (\<forall>m \<in> set (c_schedule d6). m_days m = ''TuTh'')"
  then show "course_day_names d5 \<inter> course_day_names d6 = {}"
    by (rule mwf_tuth_day_names)
next
  assume a: "(\<forall>m \<in> set (c_schedule d5). m_days m = ''MWF'') \<and>
    (\<forall>m \<in> set (c_schedule d6). m_days m = ''TuTh'')"
  then show "course_day_codes d5 \<inter> course_day_codes d6 = {}"
    by (rule mwf_tuth_day_codes)
qed

lemma mixed_schedule_runs:
  "get_all_conflicts mixed_schedule = Inr []"
  "map_sum id fst (add_course mwf_single tuth_late) = Inr []"
  by code_simp+

theorem day_overlap_decides_conflicts_witness:
  "course_day_names mwf_early \<inter> course_day_names tuth_late = {} \<and>
   course_day_codes mwf_early \<inter> course_day_codes tuth_late = {} \<and>
   map_sum id (map conflict_summary) (get_all_conflicts mwf_schedule) =
     Inr [((''a'', ''b''), ''Monday'', 30), ((''a'', ''b''), ''Wednesday'', 30),
          ((''a'', ''b''), ''Friday'', 30)] \<and>
   map_sum id (map conflict_summary \<circ> fst) (add_course mwf_single mwf_late) =
     Inr [((''b'', ''a''), ''Monday'', 30), ((''b'', ''a''), ''Wednesday'', 30),
          ((''b'', ''a''), ''Friday'', 30)] \<and>
   detect_conflicts [mwf_early, mwf_late] =
     Inr [\<lparr>x_course1_id = ''a'', x_course2_id = ''b'',
           x_course1_code = ''CAS CS 111'', x_course2_code = ''CAS CS 111'',
           x_overlap_day = ''F, M, W'', x_overlap_time = ''10:00-11:00''\<rparr>] \<and>
   get_all_conflicts mixed_schedule = Inr [] \<and>
   map_sum id fst (add_course mwf_single tuth_late) = Inr [] \<and>
   check_conflict mwf_early tuth_late = Inr None \<and>
   detect_conflicts [mwf_early, tuth_late] = Inr []"
proof -
  let ?m1 = "sample_meeting ''MWF'' ''10:00'' ''11:00''"
  let ?m2 = "sample_meeting ''MWF'' ''10:30'' ''11:30''"
  note inst = day_overlap_decides_conflicts[of mwf_early ?m1 mwf_late ?m2 mwf_schedule
      "''a''" "''b''" mwf_single mwf_early tuth_late mixed_schedule "''a''" "''c''" mwf_single
      mwf_early tuth_late mwf_early tuth_late]
  have days: "(\<forall>m \<in> set (c_schedule mwf_early). m_days m = ''MWF'') \<and>
    (\<forall>m \<in> set (c_schedule tuth_late). m_days m = ''TuTh'')"
    by (simp add: mwf_early_def tuth_late_def sample_course_def sample_meeting_def)
  note part4 = inst[THEN conjunct2, THEN conjunct2, THEN conjunct2, THEN mp, OF days]
  note names = part4[THEN conjunct1]
  note codes = part4[THEN conjunct2]
  have pre: "c_schedule mwf_early = [?m1] \<and> m_days ?m1 = ''MWF'' \<and> m_start_time ?m1 = ''10:00'' \<and>
    m_end_time ?m1 = ''11:00'' \<and>
    c_schedule mwf_late = [?m2] \<and> m_days ?m2 = ''MWF'' \<and> m_start_time ?m2 = ''10:30'' \<and>
    m_end_time ?m2 = ''11:30'' \<and>
    courses mwf_schedule = [(''a'', mwf_early), (''b'', mwf_late)] \<and>
    courses mwf_single = [(''a'', mwf_early)]"
    by (simp add: mwf_early_def mwf_late_def sample_course_def sample_meeting_def
          mwf_schedule_def mwf_single_def)
  have ids: "c_id mwf_early = ''a''" "c_id mwf_late = ''b''"
    "c_code mwf_early = ''CAS CS 111''" "c_code mwf_late = ''CAS CS 111''"
    by (simp_all add: mwf_early_def mwf_late_def sample_course_def)
  note part1 = inst[THEN conjunct1, THEN mp, OF pre]
  note part3 = inst[THEN conjunct2, THEN conjunct2, THEN conjunct1, THEN mp, OF codes]
  from part1[THEN conjunct1] obtain ks where ks: "get_all_conflicts mwf_schedule = Inr ks"
    "map conflict_summary ks =
       [((c_id mwf_early, c_id mwf_late), ''Monday'', 30),
        ((c_id mwf_early, c_id mwf_late), ''Wednesday'', 30),
        ((c_id mwf_early, c_id mwf_late), ''Friday'', 30)]"
    by (elim exE conjE)
  from part1[THEN conjunct2, THEN conjunct1]
  obtain ks' sb' where ks': "add_course mwf_single mwf_late = Inr (ks', sb')"
    "map conflict_summary ks' =
       [((c_id mwf_late, c_id mwf_early), ''Monday'', 30),
        ((c_id mwf_late, c_id mwf_early), ''Wednesday'', 30),
        ((c_id mwf_late, c_id mwf_early), ''Friday'', 30)]"
    by (elim exE conjE)
  note one = part1[THEN conjunct2, THEN conjunct2, unfolded ids]
  note idx = part3[THEN conjunct1] part3[THEN conjunct2]
  have r1: "map_sum id (map conflict_summary) (get_all_conflicts mwf_schedule) =
     Inr [((''a'', ''b''), ''Monday'', 30), ((''a'', ''b''), ''Wednesday'', 30),
          ((''a'', ''b''), ''Friday'', 30)]"
    using ks ids by simp
  have r2: "map_sum id (map conflict_summary \<circ> fst) (add_course mwf_single mwf_late) =
     Inr [((''b'', ''a''), ''Monday'', 30), ((''b'', ''a''), ''Wednesday'', 30),
          ((''b'', ''a''), ''Friday'', 30)]"
    using ks' ids by simp
  show ?thesis
    by (intro conjI names codes r1 r2 one mixed_schedule_runs idx)
qed

text \<open>
  The course index does not report the two MWF sections on each of the three days with
  an overlap of 30 minutes. It reports one conflict for the pair; what it gives as
  overlap time is the whole meeting time of the section that comes first, 10:00-11:00
  or 10:30-11:30, not the half hour from 10:30 to 11:00 that the two meetings share.
\<close>

theorem index_conflict_counterexample:
  "detect_conflicts [mwf_early, mwf_late] =
     Inr [\<lparr>x_course1_id = ''a'', x_course2_id = ''b'',
           x_course1_code = ''CAS CS 111'', x_course2_code = ''CAS CS 111'',
           x_overlap_day = ''F, M, W'', x_overlap_time = ''10:00-11:00''\<rparr>]
   \<and> detect_conflicts [mwf_late, mwf_early] =
     Inr [\<lparr>x_course1_id = ''b'', x_course2_id = ''a'',
           x_course1_code = ''CAS CS 111'', x_course2_code = ''CAS CS 111'',
           x_overlap_day = ''F, M, W'', x_overlap_time = ''10:30-11:30''\<rparr>]"
  by code_simp

section \<open>Malformed time strings\<close>

text \<open>
  Claim C5 fails on the code. A time string with a colon whose hour or minute part is no
  integer makes \<open>parse_time_to_minutes\<close> raise (\<open>ValueError\<close> from \<open>int\<close>, \<open>IndexError\<close> when
  nothing follows the colon), although a string without a colon such as \<open>invalid\<close> gives
  zero minutes; the exception passes through \<open>_course_to_events\<close> to \<open>get_events\<close>,
  \<open>get_all_conflicts\<close> and the conflict check of the course index.
\<close>

theorem parse_time_raises_on_malformed_colon_time:
  "parse_time_to_minutes ''a:b'' = Inl ValueError \<and>
   parse_time_to_minutes ''12:'' = Inl IndexError \<and>
   parse_time_to_minutes ''invalid'' = Inr 0 \<and>
   course_to_events malformed_time_course ''temp'' = Inl ValueError \<and>
   fst (get_events \<lparr>courses = [(''a'', malformed_time_course)], color_index = 0\<rparr>) = Inl ValueError \<and>
   get_all_conflicts \<lparr>courses = [(''a'', malformed_time_course)], color_index = 0\<rparr> = Inl ValueError \<and>
   detect_conflicts [malformed_time_course, malformed_time_course] = Inl ValueError"
  by code_simp

section \<open>Filtering by values of the bitmap index\<close>

lemma fold_union_matches:
  "fold (\<lambda>v acc. case map_of d v of Some b \<Rightarrow> acc \<union> b | None \<Rightarrow> acc) vals acc0
     = acc0 \<union> (\<Union>v \<in> set vals. bitmap_of d v)"
  by (induction vals arbitrary: acc0) (auto simp: bitmap_of_def split: option.splits)

lemma field_matches_union: "field_matches d vals = (\<Union>v \<in> set vals. bitmap_of d v)"
  by (simp add: field_matches_def fold_union_matches)

lemma absent_bitmap:
  "\<not> indexed_value idx field v \<Longrightarrow> bitmap_of (field_dict (indices idx) field) v = {}"
  by (simp add: indexed_value_def bitmap_of_def)

lemma filter_step_absent:
  assumes "\<forall>v \<in> set (value_list vals). \<not> indexed_value idx field v"
  shows "filter_step idx (field, vals) result = result"
proof -
  from assms have "field_matches (field_dict (indices idx) field) (value_list vals) = {}"
    by (simp add: field_matches_union absent_bitmap)
  then show ?thesis by (simp add: filter_step_def)
qed

lemma field_matches_present_only:
  "field_matches (field_dict (indices idx) field) (filter (indexed_value idx field) vs)
     = field_matches (field_dict (indices idx) field) vs"
proof -
  have "x \<in> bitmap_of (field_dict (indices idx) field) v \<Longrightarrow> indexed_value idx field v" for x v
    using absent_bitmap[of idx field v] by auto
  then show ?thesis by (auto simp: field_matches_union)
qed

lemma filter_step_present_only:
  "filter_step idx (field, Values (filter (indexed_value idx field) vs)) result
     = filter_step idx (field, Values vs) result"
proof (cases "filter (indexed_value idx field) vs = []")
  case True
  then have "\<forall>v \<in> set (value_list (Values vs)). \<not> indexed_value idx field v"
    by (auto simp: value_list_def filter_empty_conv)
  from filter_step_absent[OF this] True show ?thesis
    by (simp add: filter_step_def falsy_def)
next
  case False
  then have "vs \<noteq> []" by auto
  with False show ?thesis
    using field_matches_present_only[of idx field vs]
    by (simp add: filter_step_def falsy_def value_list_def)
qed

lemma filter_ids_step_cong:
  assumes "\<And>r. filter_step idx fv r = filter_step idx fv' r"
  shows "filter_ids idx (fs1 @ fv # fs2) = filter_ids idx (fs1 @ fv' # fs2)"
  using assms by (simp add: filter_ids_def split: option.splits)

lemma filter_ids_step_skip:
  assumes "\<And>r. filter_step idx fv r = r"
  shows "filter_ids idx (fs1 @ fv # fs2) = filter_ids idx (fs1 @ fs2)"
  using assms by (simp add: filter_ids_def split: option.splits)

text \<open>
  Claim C6. A requested field none of whose requested values occurs in the index does not
  constrain the result: \<open>filter\<close> returns what it returns without that keyword argument,
  whatever the other arguments are. More generally the requested values that do not occur
  in the index can be left out of a list without changing the result, so they never
  remove a section matched by the other values of the field or by the other fields.
\<close>

theorem filter_skips_absent_values:
  "((\<forall>v \<in> set (value_list vals). \<not> indexed_value idx field v) \<longrightarrow>
      filter_ids idx (fs1 @ (field, vals) # fs2) = filter_ids idx (fs1 @ fs2)) \<and>
   filter_ids idx (fs1 @ (field, Values vs) # fs2)
     = filter_ids idx (fs1 @ (field, Values (filter (indexed_value idx field) vs)) # fs2)"
proof (intro conjI impI)
  assume "\<forall>v \<in> set (value_list vals). \<not> indexed_value idx field v"
  then show "filter_ids idx (fs1 @ (field, vals) # fs2) = filter_ids idx (fs1 @ fs2)"
    by (intro filter_ids_step_skip filter_step_absent)
next
  show "filter_ids idx (fs1 @ (field, Values vs) # fs2)
     = filter_ids idx (fs1 @ (field, Values (filter (indexed_value idx field) vs)) # fs2)"
    by (intro filter_ids_step_cong filter_step_present_only[symmetric])
qed

lemma two_departments_filters:
  "filter_ids (build two_departments) [(''subject'', Values [''CS'', ''MA''])] = Inr {0}"
  "filter_ids (build two_departments) [(''subject'', Values [''CS''])] = Inr {0, 1}"
  "filter_ids (build two_departments) [(''subject'', Values [''MA''])] = Inr {0}"
  "filter_ids (build two_departments) [(''subject'', Values [''CS'']), (''college'', Values [''CAS''])] = Inr {0, 1}"
  "filter_ids (build two_departments) [(''college'', Values [''CAS''])] = Inr {0, 1}"
  "indexed_value (build two_departments) ''subject'' ''CS'' = False"
  "indexed_value (build two_departments) ''subject'' ''MA'' = True"
  by code_simp+

theorem filter_skips_absent_values_witness:
  "\<not> indexed_value (build two_departments) ''subject'' ''CS'' \<and>
   filter_ids (build two_departments) [(''subject'', Values [''CS'']), (''college'', Values [''CAS''])]
     = filter_ids (build two_departments) [(''college'', Values [''CAS''])] \<and>
   filter_ids (build two_departments) [(''college'', Values [''CAS''])] = Inr {0, 1} \<and>
   filter_ids (build two_departments)
       [(''subject'', Values [''CS'', ''MA'']), (''college'', Values [''CAS''])]
     = filter_ids (build two_departments)
       [(''subject'', Values [''MA'']), (''college'', Values [''CAS''])]"
proof -
  note inst = filter_skips_absent_values[of "Values [''CS'']" "build two_departments" "''subject''"
      "[]" "[(''college'', Values [''CAS''])]" "[''CS'', ''MA'']"]
  have absent: "\<forall>v \<in> set (value_list (Values [''CS''])). \<not> indexed_value (build two_departments) ''subject'' v"
    by (simp add: value_list_def two_departments_filters)
  have kept: "filter (indexed_value (build two_departments) ''subject'') [''CS'', ''MA''] = [''MA'']"
    by (simp add: two_departments_filters)
  from inst[THEN conjunct1, THEN mp, OF absent]
  have a: "filter_ids (build two_departments) [(''subject'', Values [''CS'']), (''college'', Values [''CAS''])]
     = filter_ids (build two_departments) [(''college'', Values [''CAS''])]" by simp
  from inst[THEN conjunct2, unfolded kept]
  have b: "filter_ids (build two_departments)
       [(''subject'', Values [''CS'', ''MA'']), (''college'', Values [''CAS''])]
     = filter_ids (build two_departments)
       [(''subject'', Values [''MA'']), (''college'', Values [''CAS''])]" by simp
  from a b two_departments_filters show ?thesis by simp
qed

subsection \<open>Several values of one field\<close>

lemma field_dict_index_add:
  "field_dict (index_add f v i ind) f' =
     (if f' = f then AList.update v (insert i (bitmap_of (field_dict ind f) v)) (field_dict ind f)
      else field_dict ind f')"
  by (simp add: index_add_def field_dict_def Let_def update_conv')

lemma nonempty_index_add: "nonempty_bitmaps ind \<Longrightarrow> nonempty_bitmaps (index_add f v i ind)"
  unfolding nonempty_bitmaps_def
  by (auto simp: field_dict_index_add update_conv' split: if_splits)

lemma nonempty_fold_index_add:
  "nonempty_bitmaps ind \<Longrightarrow> nonempty_bitmaps (fold (\<lambda>v. index_add f v i) vs ind)"
  by (induction vs arbitrary: ind) (simp_all add: nonempty_index_add)

lemma nonempty_index_course: "nonempty_bitmaps ind \<Longrightarrow> nonempty_bitmaps (index_course ic ind)"
  by (cases ic) (simp add: index_course_def Let_def nonempty_index_add nonempty_fold_index_add)

lemma nonempty_fold_index_course:
  "nonempty_bitmaps ind \<Longrightarrow> nonempty_bitmaps (fold index_course ics ind)"
  by (induction ics arbitrary: ind) (simp_all add: nonempty_index_course)

lemma nonempty_build: "nonempty_bitmaps (indices (build cs))"
proof -
  have "nonempty_bitmaps [(''subject'', []), (''term'', []), (''hub'', []), (''college'', []),
                   (''status'', [])]"
    by (simp add: nonempty_bitmaps_def field_dict_def)
  then show ?thesis by (simp add: build_def nonempty_fold_index_course)
qed

lemma built_indexed_bitmap:
  assumes "indexed_value (build cs) field v"
  shows "bitmap_of (field_dict (indices (build cs)) field) v \<noteq> {}"
    and "map_of (indices (build cs)) field \<noteq> None"
proof -
  from assms obtain b where b: "map_of (field_dict (indices (build cs)) field) v = Some b"
    by (auto simp: indexed_value_def)
  with nonempty_build[of cs] have "b \<noteq> {}" by (auto simp: nonempty_bitmaps_def)
  with b show "bitmap_of (field_dict (indices (build cs)) field) v \<noteq> {}"
    by (simp add: bitmap_of_def)
  from b show "map_of (indices (build cs)) field \<noteq> None"
    by (auto simp: field_dict_def split: option.splits)
qed

lemma filter_step_inter: "filter_step idx fv r = r \<inter> filter_step idx fv UNIV"
  by (cases fv) (simp add: filter_step_def Let_def)

lemma fold_filter_step_inter:
  "fold (filter_step idx) fs r = r \<inter> fold (filter_step idx) fs UNIV"
proof (induction fs arbitrary: r)
  case Nil
  then show ?case by simp
next
  case (Cons fv fs)
  have "fold (filter_step idx) (fv # fs) r = filter_step idx fv r \<inter> fold (filter_step idx) fs UNIV"
    using Cons.IH[of "filter_step idx fv r"] by simp
  also have "\<dots> = r \<inter> (filter_step idx fv UNIV \<inter> fold (filter_step idx) fs UNIV)"
    using filter_step_inter[of idx fv r] by auto
  also have "filter_step idx fv UNIV \<inter> fold (filter_step idx) fs UNIV
      = fold (filter_step idx) (fv # fs) UNIV"
    using Cons.IH[of "filter_step idx fv UNIV"] by simp
  finally show ?case .
qed

lemma filter_step_present:
  assumes "indexed_value (build cs) field v" and "set vs \<subseteq> {v, w}" and "v \<in> set vs"
  shows "filter_step (build cs) (field, Values vs) r
     = r \<inter> (\<Union>u \<in> set vs. bitmap_of (field_dict (indices (build cs)) field) u)"
proof -
  from assms(3) have ne: "vs \<noteq> []" by auto
  from built_indexed_bitmap[OF assms(1)] assms(3)
  have "(\<Union>u \<in> set vs. bitmap_of (field_dict (indices (build cs)) field) u) \<noteq> {}" by auto
  moreover from built_indexed_bitmap(2)[OF assms(1)]
  obtain d where "map_of (indices (build cs)) field = Some d" by auto
  ultimately show ?thesis using ne
    by (simp add: filter_step_def falsy_def value_list_def field_matches_union)
qed

lemma filter_ids_build:
  "filter_ids (build cs) (fs1 @ fv # fs2) =
     Inr (filter_step (build cs) fv (fold (filter_step (build cs)) fs1 {0..<length cs})
          \<inter> fold (filter_step (build cs)) fs2 UNIV)"
proof -
  have "all_ids (build cs) = Some {0..<length cs}" by (simp add: build_def)
  then have "filter_ids (build cs) (fs1 @ fv # fs2) =
     Inr (fold (filter_step (build cs)) fs2
            (filter_step (build cs) fv (fold (filter_step (build cs)) fs1 {0..<length cs})))"
    by (simp add: filter_ids_def)
  then show ?thesis
    using fold_filter_step_inter[of "build cs" fs2
        "filter_step (build cs) fv (fold (filter_step (build cs)) fs1 {0..<length cs})"]
    by simp
qed

text \<open>
  Claim C7, as amended. For every built index and every two values of a field that both
  occur in the index of that field, or that both do not occur there, filtering with the
  list of the two returns the union of the two single-value filters, also next to other
  keyword arguments. (A value that does not occur in the index leaves the field
  unconstrained, so its single-value filter returns every section.)
\<close>

theorem filter_two_values_union:
  "(indexed_value (build cs) field x \<longleftrightarrow> indexed_value (build cs) field y) \<longrightarrow>
   (\<exists>A B. filter_ids (build cs) (fs1 @ (field, Values [x]) # fs2) = Inr A \<and>
          filter_ids (build cs) (fs1 @ (field, Values [y]) # fs2) = Inr B \<and>
          filter_ids (build cs) (fs1 @ (field, Values [x, y]) # fs2) = Inr (A \<union> B))"
proof
  assume same: "indexed_value (build cs) field x \<longleftrightarrow> indexed_value (build cs) field y"
  let ?idx = "build cs"
  let ?r = "fold (filter_step ?idx) fs1 {0..<length cs}"
  let ?s = "fold (filter_step ?idx) fs2 UNIV"
  let ?b = "bitmap_of (field_dict (indices ?idx) field)"
  have steps: "filter_step ?idx (field, Values [x, y]) ?r
      = filter_step ?idx (field, Values [x]) ?r \<union> filter_step ?idx (field, Values [y]) ?r"
  proof (cases "indexed_value ?idx field x")
    case True
    with same have y: "indexed_value ?idx field y" by simp
    have "filter_step ?idx (field, Values [x]) ?r = ?r \<inter> ?b x"
      using filter_step_present[OF True, of "[x]" x ?r] by simp
    moreover have "filter_step ?idx (field, Values [y]) ?r = ?r \<inter> ?b y"
      using filter_step_present[OF y, of "[y]" y ?r] by simp
    moreover have "filter_step ?idx (field, Values [x, y]) ?r = ?r \<inter> (?b x \<union> ?b y)"
      using filter_step_present[OF True, of "[x, y]" y ?r] by simp
    ultimately show ?thesis by auto
  next
    case False
    with same have y: "\<not> indexed_value ?idx field y" by simp
    from False y have "filter_step ?idx (field, Values [x]) ?r = ?r"
      "filter_step ?idx (field, Values [y]) ?r = ?r"
      "filter_step ?idx (field, Values [x, y]) ?r = ?r"
      by (simp_all add: filter_step_absent value_list_def)
    then show ?thesis by simp
  qed
  show "\<exists>A B. filter_ids ?idx (fs1 @ (field, Values [x]) # fs2) = Inr A \<and>
          filter_ids ?idx (fs1 @ (field, Values [y]) # fs2) = Inr B \<and>
          filter_ids ?idx (fs1 @ (field, Values [x, y]) # fs2) = Inr (A \<union> B)"
  proof (intro exI conjI)
    show "filter_ids ?idx (fs1 @ (field, Values [x]) # fs2)
        = Inr (filter_step ?idx (field, Values [x]) ?r \<inter> ?s)"
      by (rule filter_ids_build)
    show "filter_ids ?idx (fs1 @ (field, Values [y]) # fs2)
        = Inr (filter_step ?idx (field, Values [y]) ?r \<inter> ?s)"
      by (rule filter_ids_build)
    show "filter_ids ?idx (fs1 @ (field, Values [x, y]) # fs2)
        = Inr (filter_step ?idx (field, Values [x]) ?r \<inter> ?s \<union>
               filter_step ?idx (field, Values [y]) ?r \<inter> ?s)"
      unfolding filter_ids_build steps by (simp add: Int_Un_distrib2)
  qed
qed

text \<open>
  The claim as stated fails when only one of the two values occurs in the index: the
  single-value filter of the missing value returns every section.
\<close>

theorem filter_union_counterexample:
  "\<not> (\<exists>A B. filter_ids (build two_departments) [(''subject'', Values [''CS''])] = Inr A \<and>
            filter_ids (build two_departments) [(''subject'', Values [''MA''])] = Inr B \<and>
            filter_ids (build two_departments) [(''subject'', Values [''CS'', ''MA''])] = Inr (A \<union> B))"
  by (simp add: two_departments_filters)

lemma more_department_filters:
  "filter_ids (build two_departments) [(''subject'', Values [''MA''])] = Inr {0}"
  "filter_ids (build two_departments) [(''subject'', Values [''PH''])] = Inr {1}"
  "indexed_value (build two_departments) ''subject'' ''MA'' = True"
  "indexed_value (build two_departments) ''subject'' ''PH'' = True"
  by code_simp+

theorem filter_two_values_union_witness:
  "(indexed_value (build two_departments) ''subject'' ''MA''
      \<longleftrightarrow> indexed_value (build two_departments) ''subject'' ''PH'') \<and>
   filter_ids (build two_departments) [(''subject'', Values [''MA''])] = Inr {0} \<and>
   filter_ids (build two_departments) [(''subject'', Values [''PH''])] = Inr {1} \<and>
   filter_ids (build two_departments) [(''subject'', Values [''MA'', ''PH''])] = Inr ({0} \<union> {1})"
proof -
  have same: "indexed_value (build two_departments) ''subject'' ''MA''
      \<longleftrightarrow> indexed_value (build two_departments) ''subject'' ''PH''"
    by (simp add: more_department_filters)
  from filter_two_values_union[of two_departments "''subject''" "''MA''" "''PH''" "[]" "[]",
      THEN mp, OF same]
  obtain A B where "filter_ids (build two_departments) [(''subject'', Values [''MA''])] = Inr A"
    "filter_ids (build two_departments) [(''subject'', Values [''PH''])] = Inr B"
    "filter_ids (build two_departments) [(''subject'', Values [''MA'', ''PH''])] = Inr (A \<union> B)"
    by auto
  with more_department_filters same show ?thesis by simp
qed

section \<open>Grouping lectures with their discussions\<close>

lemma section_facts:
  "get_section_prefix ''A1'' = ''A''" "get_section_prefix ''B1'' = ''B''"
  "get_section_prefix ''A2'' = ''A''" "get_section_prefix ''D1'' = ''D''"
  "section_sort_key ''A2'' = (''A'', 2)" "section_sort_key ''D1'' = (''D'', 1)"
  "''Lecture'' \<in> set PRIMARY_SECTION_TYPES" "''Lecture'' \<notin> set SECONDARY_SECTION_TYPES"
  "''Discussion'' \<notin> set PRIMARY_SECTION_TYPES" "''Discussion'' \<in> set SECONDARY_SECTION_TYPES"
  "((''Discussion'', ''A'', 2::int) \<le> (''Discussion'', ''D'', 1)) = True"
  "((''Discussion'', ''D'', 1::int) \<le> (''Discussion'', ''A'', 2)) = False"
  by code_simp+

lemma sort_two:
  fixes f :: "'a \<Rightarrow> 'b::linorder"
  assumes "f x < f y"
  shows "sort_key f [x, y] = [x, y]" and "sort_key f [y, x] = [x, y]"
  using assms by auto

lemma mset_two:
  assumes "mset xs = {#a, b#}"
  shows "xs = [a, b] \<or> xs = [b, a]"
proof -
  from assms have "length xs = 2" by (metis size_mset size_add_mset size_empty numeral_2_eq_2)
  then obtain u v where xs: "xs = [u, v]"
    by (metis length_0_conv length_Suc_conv numeral_2_eq_2)
  with assms have "{#u, v#} = {#a, b#}" by simp
  then have "(u = a \<and> v = b) \<or> (u = b \<and> v = a)"
    by (auto simp: add_eq_conv_ex)
  with xs show ?thesis by auto
qed

lemma partition_same_key:
  assumes "\<forall>c \<in> set cs. (c_code c, c_term c) = key"
  shows "fold partition_step cs [(key, l)] = [(key, l @ cs)]"
  using assms by (induction cs arbitrary: l) (simp_all add: partition_step_def)

lemma partition_one_group:
  assumes "\<forall>c \<in> set cs. (c_code c, c_term c) = key" and "cs \<noteq> []"
  shows "fold partition_step cs [] = [(key, cs)]"
proof -
  from assms(2) obtain c cs' where cs: "cs = c # cs'" by (cases cs) auto
  with assms(1) have "partition_step c [] = [(key, [c])]" by (simp add: partition_step_def)
  with partition_same_key[of cs' key "[c]"] assms(1) cs show ?thesis by simp
qed

lemma group_split_example:
  assumes "c_section a1 = ''A1''" "c_section b1 = ''B1''"
    and "c_section a2 = ''A2''" "c_section_type a2 = ''Discussion''"
    and "c_section d1 = ''D1''" "c_section_type d1 = ''Discussion''"
    and "c_id a1 \<noteq> c_id b1"
    and "ss = [a2, d1] \<or> ss = [d1, a2]"
  shows "group_split [a1, b1] ss =
           [from_course a1 [to_related a2, to_related d1], from_course b1 [to_related d1]]"
    and "group_split [b1, a1] ss =
           [from_course b1 [to_related d1], from_course a1 [to_related a2, to_related d1]]"
proof -
  have keys: "related_key (to_related a2) = (''Discussion'', ''A'', 2)"
    "related_key (to_related d1) = (''Discussion'', ''D'', 1)"
    using assms(3-6) by (simp_all add: related_key_def to_related_def section_facts)
  have sorted: "sort_key related_key [to_related a2, to_related d1] = [to_related a2, to_related d1]"
    "sort_key related_key [to_related d1, to_related a2] = [to_related a2, to_related d1]"
    by (simp_all add: keys section_facts)
  from assms(7) have ne: "c_id b1 \<noteq> c_id a1" by simp
  from assms(8) show "group_split [a1, b1] ss =
           [from_course a1 [to_related a2, to_related d1], from_course b1 [to_related d1]]"
  proof
    assume "ss = [a2, d1]"
    then show ?thesis
      using assms(1-7) ne
      by (simp add: group_split_def Let_def prefix_step_def match_step_def append_related_def
            related_of_def section_facts sorted keys)
  next
    assume "ss = [d1, a2]"
    then show ?thesis
      using assms(1-7) ne
      by (simp add: group_split_def Let_def prefix_step_def match_step_def append_related_def
            related_of_def section_facts sorted keys)
  qed
  from assms(8) show "group_split [b1, a1] ss =
           [from_course b1 [to_related d1], from_course a1 [to_related a2, to_related d1]]"
  proof
    assume "ss = [a2, d1]"
    then show ?thesis
      using assms(1-7) ne
      by (simp add: group_split_def Let_def prefix_step_def match_step_def append_related_def
            related_of_def section_facts sorted keys)
  next
    assume "ss = [d1, a2]"
    then show ?thesis
      using assms(1-7) ne
      by (simp add: group_split_def Let_def prefix_step_def match_step_def append_related_def
            related_of_def section_facts sorted keys)
  qed
qed

lemma group_fields:
  "c_id (from_course c rel) = c_id c"
  "c_section (from_course c rel) = c_section c"
  "g_related_sections (from_course c rel) = rel"
  by (simp_all add: from_course_def course.defs)

lemma related_fields:
  "r_id (to_related sec) = c_id sec"
  "r_section (to_related sec) = c_section sec"
  "r_section_type (to_related sec) = c_section_type sec"
  by (simp_all add: to_related_def)

text \<open>
  Claim C9. A (code, term) partition that consists of the lectures A1 and B1 and the
  discussions A2 and D1, in any order, is grouped into exactly two groups, headed by A1
  and by B1 in the order in which the two lectures come. The related sections of A1 are
  A2 and D1, those of B1 are D1 alone: the discussion D1, whose prefix matches no
  lecture, is attached to both. The second half of the statement reads this off the
  result: the id and section of each group, and the id, section and section type of each
  entry of its related list.
\<close>

theorem group_sections_shared_discussion:
  "c_section a1 = ''A1'' \<and> c_section_type a1 = ''Lecture'' \<and>
   c_section b1 = ''B1'' \<and> c_section_type b1 = ''Lecture'' \<and>
   c_section a2 = ''A2'' \<and> c_section_type a2 = ''Discussion'' \<and>
   c_section d1 = ''D1'' \<and> c_section_type d1 = ''Discussion'' \<and>
   c_id a1 \<noteq> c_id b1 \<and>
   (\<forall>c \<in> {a1, b1, a2, d1}. c_code c = cd \<and> c_term c = tm) \<and>
   mset cs = {#a1, b1, a2, d1#} \<longrightarrow>
     (group_sections cs =
        [from_course a1 [to_related a2, to_related d1], from_course b1 [to_related d1]] \<or>
      group_sections cs =
        [from_course b1 [to_related d1], from_course a1 [to_related a2, to_related d1]]) \<and>
     (map (\<lambda>g. (c_id g, c_section g,
                 map (\<lambda>r. (r_id r, r_section r, r_section_type r)) (g_related_sections g))) (group_sections cs) =
        [(c_id a1, ''A1'', [(c_id a2, ''A2'', ''Discussion''), (c_id d1, ''D1'', ''Discussion'')]),
         (c_id b1, ''B1'', [(c_id d1, ''D1'', ''Discussion'')])] \<or>
      map (\<lambda>g. (c_id g, c_section g,
                 map (\<lambda>r. (r_id r, r_section r, r_section_type r)) (g_related_sections g))) (group_sections cs) =
        [(c_id b1, ''B1'', [(c_id d1, ''D1'', ''Discussion'')]),
         (c_id a1, ''A1'', [(c_id a2, ''A2'', ''Discussion''), (c_id d1, ''D1'', ''Discussion'')])])"
proof
  assume a: "c_section a1 = ''A1'' \<and> c_section_type a1 = ''Lecture'' \<and>
   c_section b1 = ''B1'' \<and> c_section_type b1 = ''Lecture'' \<and>
   c_section a2 = ''A2'' \<and> c_section_type a2 = ''Discussion'' \<and>
   c_section d1 = ''D1'' \<and> c_section_type d1 = ''Discussion'' \<and>
   c_id a1 \<noteq> c_id b1 \<and>
   (\<forall>c \<in> {a1, b1, a2, d1}. c_code c = cd \<and> c_term c = tm) \<and>
   mset cs = {#a1, b1, a2, d1#}"
  then have ms: "mset cs = {#a1, b1, a2, d1#}" by simp
  from a have ty: "c_section_type a1 = ''Lecture''" "c_section_type b1 = ''Lecture''"
    "c_section_type a2 = ''Discussion''" "c_section_type d1 = ''Discussion''" by simp_all
  from ms have "set_mset (mset cs) = {a1, b1, a2, d1}" by simp
  then have set_cs: "set cs = {a1, b1, a2, d1}" by simp
  then have ne: "cs \<noteq> []" by auto
  from a set_cs have "\<forall>c \<in> set cs. (c_code c, c_term c) = (cd, tm)" by simp
  from partition_one_group[OF this ne]
  have gs: "group_sections cs = group_partition cs" by (simp add: group_sections_def)
  let ?P = "\<lambda>c. c_section_type c \<in> set PRIMARY_SECTION_TYPES"
  let ?S = "\<lambda>c. c_section_type c \<in> set SECONDARY_SECTION_TYPES"
  have "mset (filter ?P cs) = {#a1, b1#}"
    by (simp add: ms ty section_facts del: set_simps)
  then have p: "filter ?P cs = [a1, b1] \<or> filter ?P cs = [b1, a1]" by (rule mset_two)
  have "mset (filter ?S cs) = {#a2, d1#}"
    by (simp add: ms ty section_facts)
  then have s: "filter ?S cs = [a2, d1] \<or> filter ?S cs = [d1, a2]" by (rule mset_two)
  from a have h: "c_section a1 = ''A1''" "c_section b1 = ''B1''"
    "c_section a2 = ''A2''" "c_section_type a2 = ''Discussion''"
    "c_section d1 = ''D1''" "c_section_type d1 = ''Discussion''" "c_id a1 \<noteq> c_id b1"
    by simp_all
  from p have groups: "group_sections cs =
       [from_course a1 [to_related a2, to_related d1], from_course b1 [to_related d1]] \<or>
     group_sections cs =
       [from_course b1 [to_related d1], from_course a1 [to_related a2, to_related d1]]"
  proof
    assume "filter ?P cs = [a1, b1]"
    with group_split_example(1)[OF h s] show ?thesis by (simp add: gs group_partition_def)
  next
    assume "filter ?P cs = [b1, a1]"
    with group_split_example(2)[OF h s] show ?thesis by (simp add: gs group_partition_def)
  qed
  from groups have fields: "map (\<lambda>g. (c_id g, c_section g,
                 map (\<lambda>r. (r_id r, r_section r, r_section_type r)) (g_related_sections g))) (group_sections cs) =
        [(c_id a1, ''A1'', [(c_id a2, ''A2'', ''Discussion''), (c_id d1, ''D1'', ''Discussion'')]),
         (c_id b1, ''B1'', [(c_id d1, ''D1'', ''Discussion'')])] \<or>
      map (\<lambda>g. (c_id g, c_section g,
                 map (\<lambda>r. (r_id r, r_section r, r_section_type r)) (g_related_sections g))) (group_sections cs) =
        [(c_id b1, ''B1'', [(c_id d1, ''D1'', ''Discussion'')]),
         (c_id a1, ''A1'', [(c_id a2, ''A2'', ''Discussion''), (c_id d1, ''D1'', ''Discussion'')])]"
  proof
    assume "group_sections cs =
       [from_course a1 [to_related a2, to_related d1], from_course b1 [to_related d1]]"
    then show ?thesis by (simp add: group_fields related_fields h)
  next
    assume "group_sections cs =
       [from_course b1 [to_related d1], from_course a1 [to_related a2, to_related d1]]"
    then show ?thesis by (simp add: group_fields related_fields h)
  qed
  from groups fields show "(group_sections cs =
        [from_course a1 [to_related a2, to_related d1], from_course b1 [to_related d1]] \<or>
      group_sections cs =
        [from_course b1 [to_related d1], from_course a1 [to_related a2, to_related d1]]) \<and>
     (map (\<lambda>g. (c_id g, c_section g,
                 map (\<lambda>r. (r_id r, r_section r, r_section_type r)) (g_related_sections g))) (group_sections cs) =
        [(c_id a1, ''A1'', [(c_id a2, ''A2'', ''Discussion''), (c_id d1, ''D1'', ''Discussion'')]),
         (c_id b1, ''B1'', [(c_id d1, ''D1'', ''Discussion'')])] \<or>
      map (\<lambda>g. (c_id g, c_section g,
                 map (\<lambda>r. (r_id r, r_section r, r_section_type r)) (g_related_sections g))) (group_sections cs) =
        [(c_id b1, ''B1'', [(c_id d1, ''D1'', ''Discussion'')]),
         (c_id a1, ''A1'', [(c_id a2, ''A2'', ''Discussion''), (c_id d1, ''D1'', ''Discussion'')])])"
    by (rule conjI)
qed

lemma grouped_example:
  "map (\<lambda>g. (c_id g, c_section g,
                 map (\<lambda>r. (r_id r, r_section r, r_section_type r)) (g_related_sections g))) (group_sections [discussion_d1, lecture_a1, discussion_a2, lecture_b1]) =
     [(''l-a1'', ''A1'', [(''d-a2'', ''A2'', ''Discussion''), (''d-d1'', ''D1'', ''Discussion'')]),
      (''l-b1'', ''B1'', [(''d-d1'', ''D1'', ''Discussion'')])]"
  by code_simp

theorem group_sections_shared_discussion_witness:
  "mset [discussion_d1, lecture_a1, discussion_a2, lecture_b1]
     = {#lecture_a1, lecture_b1, discussion_a2, discussion_d1#} \<and>
   c_id lecture_a1 \<noteq> c_id lecture_b1 \<and>
   length (group_sections [discussion_d1, lecture_a1, discussion_a2, lecture_b1]) = 2 \<and>
   set (group_sections [discussion_d1, lecture_a1, discussion_a2, lecture_b1]) =
     {from_course lecture_a1 [to_related discussion_a2, to_related discussion_d1],
      from_course lecture_b1 [to_related discussion_d1]} \<and>
   set (map (\<lambda>g. (c_id g, c_section g,
                 map (\<lambda>r. (r_id r, r_section r, r_section_type r)) (g_related_sections g))) (group_sections [discussion_d1, lecture_a1, discussion_a2, lecture_b1])) =
     {(''l-a1'', ''A1'', [(''d-a2'', ''A2'', ''Discussion''), (''d-d1'', ''D1'', ''Discussion'')]),
      (''l-b1'', ''B1'', [(''d-d1'', ''D1'', ''Discussion'')])} \<and>
   map (\<lambda>g. (c_id g, c_section g,
                 map (\<lambda>r. (r_id r, r_section r, r_section_type r)) (g_related_sections g))) (group_sections [discussion_d1, lecture_a1, discussion_a2, lecture_b1]) =
     [(''l-a1'', ''A1'', [(''d-a2'', ''A2'', ''Discussion''), (''d-d1'', ''D1'', ''Discussion'')]),
      (''l-b1'', ''B1'', [(''d-d1'', ''D1'', ''Discussion'')])]"
proof -
  let ?cs = "[discussion_d1, lecture_a1, discussion_a2, lecture_b1]"
  have ms: "mset ?cs = {#lecture_a1, lecture_b1, discussion_a2, discussion_d1#}" by simp
  have ids: "c_id lecture_a1 \<noteq> c_id lecture_b1"
    by (simp add: lecture_a1_def lecture_b1_def sample_course_def)
  have names: "c_id lecture_a1 = ''l-a1''" "c_id lecture_b1 = ''l-b1''"
    "c_id discussion_a2 = ''d-a2''" "c_id discussion_d1 = ''d-d1''"
    by (simp_all add: lecture_a1_def lecture_b1_def discussion_a2_def discussion_d1_def
          sample_course_def)
  have pre: "c_section lecture_a1 = ''A1'' \<and> c_section_type lecture_a1 = ''Lecture'' \<and>
   c_section lecture_b1 = ''B1'' \<and> c_section_type lecture_b1 = ''Lecture'' \<and>
   c_section discussion_a2 = ''A2'' \<and> c_section_type discussion_a2 = ''Discussion'' \<and>
   c_section discussion_d1 = ''D1'' \<and> c_section_type discussion_d1 = ''Discussion'' \<and>
   c_id lecture_a1 \<noteq> c_id lecture_b1 \<and>
   (\<forall>c \<in> {lecture_a1, lecture_b1, discussion_a2, discussion_d1}.
      c_code c = ''CAS CS 111'' \<and> c_term c = ''Fall 2026'') \<and>
   mset ?cs = {#lecture_a1, lecture_b1, discussion_a2, discussion_d1#}"
    by (simp add: lecture_a1_def lecture_b1_def discussion_a2_def discussion_d1_def
          sample_course_def)
  note inst = group_sections_shared_discussion[of lecture_a1 lecture_b1 discussion_a2
      discussion_d1 "''CAS CS 111''" "''Fall 2026''" ?cs, THEN mp, OF pre]
  from inst[THEN conjunct1]
  have groups: "length (group_sections ?cs) = 2 \<and> set (group_sections ?cs) =
     {from_course lecture_a1 [to_related discussion_a2, to_related discussion_d1],
      from_course lecture_b1 [to_related discussion_d1]}"
    by (elim disjE) auto
  from inst[THEN conjunct2, unfolded names]
  have fields: "set (map (\<lambda>g. (c_id g, c_section g,
                 map (\<lambda>r. (r_id r, r_section r, r_section_type r)) (g_related_sections g))) (group_sections ?cs)) =
     {(''l-a1'', ''A1'', [(''d-a2'', ''A2'', ''Discussion''), (''d-d1'', ''D1'', ''Discussion'')]),
      (''l-b1'', ''B1'', [(''d-d1'', ''D1'', ''Discussion'')])}"
  proof
    assume e: "map (\<lambda>g. (c_id g, c_section g,
                 map (\<lambda>r. (r_id r, r_section r, r_section_type r)) (g_related_sections g))) (group_sections ?cs) =
     [(''l-a1'', ''A1'', [(''d-a2'', ''A2'', ''Discussion''), (''d-d1'', ''D1'', ''Discussion'')]),
      (''l-b1'', ''B1'', [(''d-d1'', ''D1'', ''Discussion'')])]"
    show ?thesis unfolding e by simp
  next
    assume e: "map (\<lambda>g. (c_id g, c_section g,
                 map (\<lambda>r. (r_id r, r_section r, r_section_type r)) (g_related_sections g))) (group_sections ?cs) =
     [(''l-b1'', ''B1'', [(''d-d1'', ''D1'', ''Discussion'')]),
      (''l-a1'', ''A1'', [(''d-a2'', ''A2'', ''Discussion''), (''d-d1'', ''D1'', ''Discussion'')])]"
    show ?thesis unfolding e by (simp add: insert_commute)
  qed
  show ?thesis
    by (intro conjI ms ids groups[THEN conjunct1] groups[THEN conjunct2] fields grouped_example)
qed

section \<open>Candidates of the trigram index\<close>

subsection \<open>Posting lists\<close>

lemma set_add_set: "set (set_add x xs) = insert x (set xs)"
  by (auto simp: set_add_def)

lemma set_add_distinct: "distinct xs \<Longrightarrow> distinct (set_add x xs)"
  by (simp add: set_add_def)

lemma ids_of_add_posting:
  "ids_of (add_posting d t p) tg = (if tg = t then set_add d (ids_of p t) else ids_of p tg)"
  by (simp add: add_posting_def ids_of_def update_conv')

lemma ids_of_fold_add_posting_set:
  "set (ids_of (fold (add_posting d) tgs p) tg)
     = (if tg \<in> set tgs then insert d (set (ids_of p tg)) else set (ids_of p tg))"
  by (induction tgs arbitrary: p) (auto simp: ids_of_add_posting set_add_set)

lemma ids_of_fold_add_posting_distinct:
  "(\<And>tg. distinct (ids_of p tg)) \<Longrightarrow> distinct (ids_of (fold (add_posting d) tgs p) tg)"
proof (induction tgs arbitrary: p tg)
  case Nil
  then show ?case by simp
next
  case (Cons t tgs)
  have "distinct (ids_of (add_posting d t p) tg')" for tg'
    using Cons.prems by (simp add: ids_of_add_posting set_add_distinct)
  from Cons.IH[OF this] show ?case by simp
qed

subsection \<open>Match counts\<close>

lemma count_of_bump:
  "count_of (bump d mc) d' = (if d' = d then count_of mc d + 1 else count_of mc d')"
  by (simp add: bump_def count_of_def update_conv')

lemma keys_bump: "fst ` set (bump d mc) = insert d (fst ` set mc)"
  by (simp add: bump_def dom_update)

lemma distinct_bump: "distinct (map fst mc) \<Longrightarrow> distinct (map fst (bump d mc))"
  by (simp add: bump_def distinct_update)

lemma count_of_fold_bump:
  "distinct ds \<Longrightarrow>
   count_of (fold bump ds mc) d' = count_of mc d' + (if d' \<in> set ds then 1 else 0)"
  by (induction ds arbitrary: mc) (auto simp: count_of_bump)

lemma keys_fold_bump: "fst ` set (fold bump ds mc) = set ds \<union> fst ` set mc"
  by (induction ds arbitrary: mc) (auto simp: keys_bump)

lemma distinct_fold_bump: "distinct (map fst mc) \<Longrightarrow> distinct (map fst (fold bump ds mc))"
  by (induction ds arbitrary: mc) (simp_all add: distinct_bump)

lemma count_of_outer_fold:
  assumes "\<And>tg. distinct (ids_of p tg)"
  shows "count_of (fold (\<lambda>trigram counts. fold bump (ids_of p trigram) counts) tgs mc) d
     = count_of mc d + int (length (filter (\<lambda>tg. d \<in> set (ids_of p tg)) tgs))"
  by (induction tgs arbitrary: mc) (simp_all add: count_of_fold_bump assms)

lemma keys_outer_fold:
  "fst ` set (fold (\<lambda>trigram counts. fold bump (ids_of p trigram) counts) tgs mc)
     = fst ` set mc \<union> (\<Union>tg \<in> set tgs. set (ids_of p tg))"
  by (induction tgs arbitrary: mc) (auto simp: keys_fold_bump)

lemma distinct_outer_fold:
  "distinct (map fst mc) \<Longrightarrow>
   distinct (map fst (fold (\<lambda>trigram counts. fold bump (ids_of p trigram) counts) tgs mc))"
  by (induction tgs arbitrary: mc) (simp_all add: distinct_fold_bump)

lemma count_of_Nil: "count_of [] d = 0"
  by (simp add: count_of_def)

lemma count_matches_count:
  assumes "\<And>tg. distinct (ids_of p tg)" and "distinct tgs"
  shows "count_of (count_matches p tgs) d = int (card {tg \<in> set tgs. d \<in> set (ids_of p tg)})"
proof -
  have "{tg. d \<in> set (ids_of p tg)} \<inter> set tgs = {tg \<in> set tgs. d \<in> set (ids_of p tg)}" by auto
  with distinct_length_filter[OF assms(2), of "\<lambda>tg. d \<in> set (ids_of p tg)"]
  show ?thesis
    by (simp add: count_matches_def count_of_outer_fold[OF assms(1)] count_of_Nil)
qed

lemma selected_keys:
  assumes "distinct (map fst mc)"
  shows "set (map fst (filter (\<lambda>(d, n). n \<ge> m) mc)) = {d \<in> fst ` set mc. count_of mc d \<ge> m}"
proof -
  have "count_of mc d = n" if "(d, n) \<in> set mc" for d n
    using that assms by (simp add: count_of_def)
  then show ?thesis by force
qed


subsection \<open>The index after a sequence of additions\<close>

lemma build_snoc:
  "build_trigram_index (docs @ [(d, t)]) = add (build_trigram_index docs) d t"
  by (simp add: build_trigram_index_def)

lemma ids_of_Nil: "ids_of [] tg = []"
  by (simp add: ids_of_def)

lemma built_postings:
  "d \<in> set (ids_of (trigram_to_ids (build_trigram_index docs)) tg)
     \<longleftrightarrow> (\<exists>t. (d, t) \<in> set docs \<and> tg \<in> set (extract_trigrams (normalize t)))"
proof (induction docs rule: rev_induct)
  case Nil
  then show ?case by (simp add: build_trigram_index_def empty_trigram_index_def ids_of_Nil)
next
  case (snoc x docs)
  obtain d0 t0 where x: "x = (d0, t0)" by (cases x)
  show ?case
    unfolding x build_snoc
    by (auto simp: add_def Let_def ids_of_fold_add_posting_set snoc.IH)
qed

lemma built_postings_distinct:
  "distinct (ids_of (trigram_to_ids (build_trigram_index docs)) tg)"
proof (induction docs arbitrary: tg rule: rev_induct)
  case Nil
  then show ?case by (simp add: build_trigram_index_def empty_trigram_index_def ids_of_Nil)
next
  case (snoc x docs)
  obtain d0 t0 where x: "x = (d0, t0)" by (cases x)
  show ?case
    unfolding x build_snoc
    by (simp add: add_def Let_def ids_of_fold_add_posting_distinct snoc.IH)
qed

lemma built_keys: "fst ` set (id_to_text (build_trigram_index docs)) = fst ` set docs"
proof (induction docs rule: rev_induct)
  case Nil
  then show ?case by (simp add: build_trigram_index_def empty_trigram_index_def)
next
  case (snoc x docs)
  obtain d0 t0 where x: "x = (d0, t0)" by (cases x)
  show ?case
    unfolding x build_snoc
    using snoc.IH by (simp add: add_def Let_def dom_update)
qed

lemma built_stored:
  "distinct (map fst docs) \<Longrightarrow> (d, t) \<in> set docs \<Longrightarrow>
   map_of (id_to_text (build_trigram_index docs)) d = Some (normalize t)"
proof (induction docs rule: rev_induct)
  case Nil
  then show ?case by simp
next
  case (snoc x docs)
  obtain d0 t0 where x: "x = (d0, t0)" by (cases x)
  from snoc.prems(1) x have dist: "distinct (map fst docs)" and new: "d0 \<notin> fst ` set docs"
    by auto
  show ?case
  proof (cases "(d, t) = (d0, t0)")
    case True
    then show ?thesis
      unfolding x build_snoc by (simp add: add_def Let_def update_conv')
  next
    case False
    with snoc.prems(2) x have mem: "(d, t) \<in> set docs" by auto
    with new have "d \<noteq> d0" by force
    with snoc.IH[OF dist mem] show ?thesis
      unfolding x build_snoc by (simp add: add_def Let_def update_conv')
  qed
qed

lemma distinct_extract_trigrams: "distinct (extract_trigrams s)"
  by (simp add: extract_trigrams_def)

lemma extract_trigrams_empty: "extract_trigrams s = [] \<longleftrightarrow> s = []"
proof
  assume e: "extract_trigrams s = []"
  show "s = []"
  proof (rule ccontr)
    assume ne: "s \<noteq> []"
    show False
    proof (cases "length s < 3")
      case True
      with ne e show False by (simp add: extract_trigrams_def)
    next
      case False
      then have "[0..<length s - 2] \<noteq> []" by simp
      with False e show False by (simp add: extract_trigrams_def)
    qed
  qed
next
  assume "s = []"
  then show "extract_trigrams s = []" by (simp add: extract_trigrams_def)
qed

lemma extract_trigrams_long:
  assumes "3 \<le> length s"
  shows "set (extract_trigrams s) = {take 3 (drop i s) | i. i + 3 \<le> length s}"
proof -
  from assms have "set [0..<length s - 2] = {i. i + 3 \<le> length s}" by auto
  with assms show ?thesis by (auto simp: extract_trigrams_def)
qed

lemma get_candidates_built:
  assumes dist: "distinct (map fst docs)" and m: "1 \<le> min_matches"
    and q: "normalize query \<noteq> []"
  shows "get_candidates (build_trigram_index docs) query min_matches
           = spec_candidates (build_trigram_index docs) query min_matches"
proof -
  let ?idx = "build_trigram_index docs"
  let ?p = "trigram_to_ids ?idx"
  let ?Q = "extract_trigrams (normalize query)"
  let ?mc = "count_matches ?p ?Q"
  from q have Q: "?Q \<noteq> []" by (simp add: extract_trigrams_empty)
  have dmc: "distinct (map fst ?mc)"
    unfolding count_matches_def by (rule distinct_outer_fold) simp
  have keys: "fst ` set ?mc = (\<Union>tg \<in> set ?Q. set (ids_of ?p tg))"
    unfolding count_matches_def by (simp add: keys_outer_fold)
  have cnt: "count_of ?mc d = int (card {tg \<in> set ?Q. d \<in> set (ids_of ?p tg)})" for d
    by (rule count_matches_count) (simp_all add: built_postings_distinct distinct_extract_trigrams)
  have lhs: "get_candidates ?idx query min_matches
               = {d \<in> fst ` set ?mc. count_of ?mc d \<ge> min_matches}"
    using Q selected_keys[OF dmc, of min_matches] by (simp add: get_candidates_def Let_def)
  have key: "(d \<in> fst ` set ?mc \<and> count_of ?mc d \<ge> min_matches)
               \<longleftrightarrow> (d \<in> fst ` set (id_to_text ?idx)
                    \<and> int (shared_shingles ?idx query d) \<ge> min_matches)" for d
  proof (cases "d \<in> fst ` set docs")
    case True
    then obtain x where x: "x \<in> set docs" "d = fst x" by (rule imageE)
    define t where "t = snd x"
    from x have mem: "(d, t) \<in> set docs" by (simp add: t_def)
    have same: "t' = t" if "(d, t') \<in> set docs" for t'
      using eq_key_imp_eq_value[OF dist that mem] .
    have post: "d \<in> set (ids_of ?p tg) \<longleftrightarrow> tg \<in> set (extract_trigrams (normalize t))" for tg
    proof
      assume "d \<in> set (ids_of ?p tg)"
      then obtain t' where t': "(d, t') \<in> set docs" "tg \<in> set (extract_trigrams (normalize t'))"
        unfolding built_postings by (elim exE conjE)
      from same[OF t'(1)] t'(2) show "tg \<in> set (extract_trigrams (normalize t))" by simp
    next
      assume "tg \<in> set (extract_trigrams (normalize t))"
      with mem show "d \<in> set (ids_of ?p tg)"
        unfolding built_postings by (intro exI conjI)
    qed
    have A: "{tg \<in> set ?Q. d \<in> set (ids_of ?p tg)}
               = set (extract_trigrams (normalize t)) \<inter> set ?Q"
      using post by auto
    have sh: "shared_shingles ?idx query d
                = card (set (extract_trigrams (normalize t)) \<inter> set ?Q)"
      by (simp add: shared_shingles_def built_stored[OF dist mem])
    have inkeys: "d \<in> fst ` set (id_to_text ?idx)"
      using True by (simp add: built_keys)
    show ?thesis
    proof
      assume "d \<in> fst ` set ?mc \<and> count_of ?mc d \<ge> min_matches"
      then show "d \<in> fst ` set (id_to_text ?idx)
                   \<and> int (shared_shingles ?idx query d) \<ge> min_matches"
        using inkeys by (simp add: cnt A sh)
    next
      assume r: "d \<in> fst ` set (id_to_text ?idx)
                   \<and> int (shared_shingles ?idx query d) \<ge> min_matches"
      then have c: "int (card (set (extract_trigrams (normalize t)) \<inter> set ?Q)) \<ge> min_matches"
        by (simp add: sh)
      with m have "card (set (extract_trigrams (normalize t)) \<inter> set ?Q) \<noteq> 0" by auto
      then have "set (extract_trigrams (normalize t)) \<inter> set ?Q \<noteq> {}" by auto
      then obtain tg where tg: "tg \<in> set (extract_trigrams (normalize t))" "tg \<in> set ?Q"
        by auto
      from tg(1) have "d \<in> set (ids_of ?p tg)" by (simp add: post)
      with tg(2) have "d \<in> fst ` set ?mc" unfolding keys by blast
      with c show "d \<in> fst ` set ?mc \<and> count_of ?mc d \<ge> min_matches"
        by (simp add: cnt A)
    qed
  next
    case False
    have none: "d \<notin> set (ids_of ?p tg)" for tg
    proof
      assume "d \<in> set (ids_of ?p tg)"
      then obtain t' where "(d, t') \<in> set docs"
        unfolding built_postings by (elim exE conjE)
      then have "fst (d, t') \<in> fst ` set docs" by (rule imageI)
      with False show False by simp
    qed
    have "d \<notin> fst ` set ?mc" unfolding keys using none by simp
    moreover have "d \<notin> fst ` set (id_to_text ?idx)" using False by (simp add: built_keys)
    ultimately show ?thesis by simp
  qed
  show ?thesis unfolding lhs spec_candidates_def by (rule Collect_cong) (rule key)
qed

lemma get_candidates_blank:
  "normalize blank = [] \<Longrightarrow> get_candidates idx blank m = fst ` set (id_to_text idx)"
  by (simp add: get_candidates_def extract_trigrams_def)

lemma extract_trigrams_short:
  "s \<noteq> [] \<Longrightarrow> length s < 3 \<Longrightarrow> extract_trigrams s = [s]"
  by (simp add: extract_trigrams_def)

text \<open>
  Claim C8, as amended. For an index built by adding each id once and for a threshold of
  at least 1, \<open>get_candidates\<close> returns exactly the indexed ids whose normalized stored
  text shares at least \<open>min_matches\<close> distinct shingles with the normalized query, when
  the normalized query is not empty. The stored text of an id is the normalized text it
  was added with, and the indexed ids are the ids added. When the normalized query is
  empty, every indexed id is returned, whatever the index and the threshold. A non-empty
  string shorter than 3 characters has itself as only shingle; the shingles of a longer
  string are its substrings of length 3.
\<close>

theorem get_candidates_shared_shingles:
  "(distinct (map fst docs) \<and> 1 \<le> min_matches \<and> normalize query \<noteq> [] \<longrightarrow>
      get_candidates (build_trigram_index docs) query min_matches
        = spec_candidates (build_trigram_index docs) query min_matches)
   \<and> (distinct (map fst docs) \<and> (d, t) \<in> set docs \<longrightarrow>
        map_of (id_to_text (build_trigram_index docs)) d = Some (normalize t))
   \<and> fst ` set (id_to_text (build_trigram_index docs)) = fst ` set docs
   \<and> (normalize blank = [] \<longrightarrow> get_candidates idx blank m = fst ` set (id_to_text idx))
   \<and> (s \<noteq> [] \<and> length s < 3 \<longrightarrow> extract_trigrams s = [s])
   \<and> (3 \<le> length l \<longrightarrow>
        set (extract_trigrams l) = {take 3 (drop i l) | i. i + 3 \<le> length l})"
proof (intro conjI impI)
  assume "distinct (map fst docs) \<and> 1 \<le> min_matches \<and> normalize query \<noteq> []"
  then show "get_candidates (build_trigram_index docs) query min_matches
               = spec_candidates (build_trigram_index docs) query min_matches"
    by (simp add: get_candidates_built)
next
  assume "distinct (map fst docs) \<and> (d, t) \<in> set docs"
  then show "map_of (id_to_text (build_trigram_index docs)) d = Some (normalize t)"
    by (simp add: built_stored)
next
  show "fst ` set (id_to_text (build_trigram_index docs)) = fst ` set docs"
    by (rule built_keys)
next
  assume "normalize blank = []"
  then show "get_candidates idx blank m = fst ` set (id_to_text idx)"
    by (rule get_candidates_blank)
next
  assume "s \<noteq> [] \<and> length s < 3"
  then show "extract_trigrams s = [s]" by (simp add: extract_trigrams_short)
next
  assume "3 \<le> length l"
  then show "set (extract_trigrams l) = {take 3 (drop i l) | i. i + 3 \<le> length l}"
    by (rule extract_trigrams_long)
qed

lemma two_documents_stored:
  "id_to_text (build_trigram_index two_documents) = [(0, ''cs 111''), (1, ''ma 123'')]"
  by code_simp

lemma two_documents_shared:
  "shared_shingles (build_trigram_index two_documents) ''Cs 1'' 0 = 2
   \<and> shared_shingles (build_trigram_index two_documents) ''Cs 1'' 1 = 0"
  by code_simp

lemma two_documents_spec:
  "spec_candidates (build_trigram_index two_documents) ''Cs 1'' 2 = {0}
   \<and> spec_candidates (build_trigram_index two_documents) ''Cs 1'' 0 = {0, 1}"
  using two_documents_shared by (auto simp: spec_candidates_def two_documents_stored)

theorem get_candidates_shared_shingles_witness:
  "get_candidates (build_trigram_index two_documents) ''Cs 1'' 2 = {0}
   \<and> map_of (id_to_text (build_trigram_index two_documents)) 1 = Some ''ma 123''
   \<and> fst ` set (id_to_text (build_trigram_index two_documents)) = {0, 1}
   \<and> get_candidates (build_trigram_index two_documents) ''  '' 2 = {0, 1}
   \<and> extract_trigrams ''cs'' = [''cs'']
   \<and> set (extract_trigrams ''cs 1'') = {''cs '', ''s 1''}"
proof -
  note inst = get_candidates_shared_shingles[of two_documents 2 "''Cs 1''" 1 "''MA 123''"
      "''  ''" "build_trigram_index two_documents" 2 "''cs''" "''cs 1''"]
  have pre1: "distinct (map fst two_documents) \<and> (1::int) \<le> 2 \<and> normalize ''Cs 1'' \<noteq> []"
    by code_simp
  have pre2: "distinct (map fst two_documents) \<and> (1, ''MA 123'') \<in> set two_documents"
    by code_simp
  have pre4: "normalize ''  '' = []" by code_simp
  have pre5: "''cs'' \<noteq> [] \<and> length ''cs'' < 3" by simp
  have pre6: "3 \<le> length ''cs 1''" by simp
  have norm: "normalize ''MA 123'' = ''ma 123''" by code_simp
  have docs: "fst ` set two_documents = {0, 1}" by (simp add: two_documents_def)
  note c1 = inst[THEN conjunct1, THEN mp, OF pre1]
  note c2 = inst[THEN conjunct2, THEN conjunct1, THEN mp, OF pre2]
  note c3 = inst[THEN conjunct2, THEN conjunct2, THEN conjunct1]
  note c4 = inst[THEN conjunct2, THEN conjunct2, THEN conjunct2, THEN conjunct1, THEN mp, OF pre4]
  note c5 = inst[THEN conjunct2, THEN conjunct2, THEN conjunct2, THEN conjunct2, THEN conjunct1,
      THEN mp, OF pre5]
  have c6: "set (extract_trigrams ''cs 1'') = {''cs '', ''s 1''}" by code_simp
  show ?thesis
    using c1 c2 c3 c4 c5 c6
    by (simp only: two_documents_spec[THEN conjunct1] norm docs simp_thms)
qed

text \<open>
  With a threshold of 0 an indexed id that shares no shingle with the query is not
  returned, although it shares at least 0 shingles. An id added a second time keeps the
  postings of its first text: it is returned for a query that its stored text shares no
  shingle with.
\<close>

theorem get_candidates_counterexample:
  "get_candidates (build_trigram_index two_documents) ''Cs 1'' 0 = {0}
   \<and> spec_candidates (build_trigram_index two_documents) ''Cs 1'' 0 = {0, 1}
   \<and> get_candidates (build_trigram_index readded_document) ''abc'' 1 = {0}
   \<and> map_of (id_to_text (build_trigram_index readded_document)) 0 = Some ''xyz''
   \<and> spec_candidates (build_trigram_index readded_document) ''abc'' 1 = {}"
proof -
  have g1: "get_candidates (build_trigram_index two_documents) ''Cs 1'' 0 = {0}" by code_simp
  have g2: "get_candidates (build_trigram_index readded_document) ''abc'' 1 = {0}" by code_simp
  have st: "id_to_text (build_trigram_index readded_document) = [(0, ''xyz'')]" by code_simp
  have sh: "shared_shingles (build_trigram_index readded_document) ''abc'' 0 = 0" by code_simp
  have s2: "spec_candidates (build_trigram_index readded_document) ''abc'' 1 = {}"
    using sh by (auto simp: spec_candidates_def st)
  show ?thesis
    using g1 g2 s2 two_documents_spec[THEN conjunct2] by (simp add: st)
qed

end
